theory Spec2Isabelle
  imports Main "HOL-Library.Word"
begin

unbundle bit_operations_syntax

section \<open>Status values\<close>

text \<open>
  \<^verbatim>\<open>arrow::Status\<close>: a function that returns a status returns either \<^verbatim>\<open>Status::OK()\<close>
  (here the right injection, which also carries the out-parameters) or a status code
  with a message (the left injection).  The codes are those the file constructs.
\<close>

datatype StatusCode = Invalid | NotImplemented | IOError

datatype Status = Status (code: StatusCode) (message: string)

text \<open>
  Besides returning a non-OK status, a call can fail to return at all: a \<^verbatim>\<open>DCHECK\<close> that
  fails (debug builds abort), a read past the end of a level or value buffer, a null
  pointer that is dereferenced, an exception nobody catches, or a
  \<^verbatim>\<open>dynamic_cast\<close> to the wrong typed reader that is then dereferenced.  These are the
  \<open>Crash\<close> failures.  \<^verbatim>\<open>DCHECK\<close>s are compiled out of release builds.
\<close>

datatype CrashKind = DCheckFailed | OutOfBounds | BadCast | NullPointer | UncaughtException

datatype Failure = StatusError Status | Crash CrashKind

datatype Build = Debug | Release

section \<open>INT96 timestamps\<close>

text \<open>
  \<^verbatim>\<open>parquet::Int96\<close> is \<^verbatim>\<open>struct Int96 { uint32_t value[3]; }\<close>; the three fields below
  are \<^verbatim>\<open>value[0]\<close>, \<^verbatim>\<open>value[1]\<close> and \<^verbatim>\<open>value[2]\<close>.
\<close>

record Int96 =
  value0 :: "32 word"
  value1 :: "32 word"
  value2 :: "32 word"

text \<open>The twelve bytes of an \<^verbatim>\<open>Int96\<close> read as one little-endian 96-bit integer.\<close>

definition int96_bits :: "Int96 \<Rightarrow> 96 word" where
  "int96_bits ts =
     push_bit 64 (ucast (value2 ts)) OR push_bit 32 (ucast (value1 ts)) OR ucast (value0 ts)"

definition kJulianToUnixEpochDays :: "64 word" where
  "kJulianToUnixEpochDays = 2440588"

definition kNanosecondsInADay :: "64 word" where
  "kNanosecondsInADay = 86400 * 1000 * 1000 * 1000"

text \<open>
  \<^verbatim>\<open>impala_timestamp_to_nanoseconds\<close>.  \<^verbatim>\<open>value[2]\<close> is an unsigned 32-bit integer that is
  promoted to \<^verbatim>\<open>int64_t\<close> before the subtraction; the \<^verbatim>\<open>reinterpret_cast\<close> reads the first
  eight bytes, \<^verbatim>\<open>value[0]\<close> and \<^verbatim>\<open>value[1]\<close>, as one little-endian \<^verbatim>\<open>int64_t\<close>.  The
  arithmetic is that of 64-bit two's complement words.
\<close>

definition impala_timestamp_to_nanoseconds :: "Int96 \<Rightarrow> 64 word" where
  "impala_timestamp_to_nanoseconds impala_timestamp =
     (let days_since_epoch = (ucast (value2 impala_timestamp) :: 64 word) - kJulianToUnixEpochDays;
          nanoseconds = (push_bit 32 (ucast (value1 impala_timestamp)) OR
                         ucast (value0 impala_timestamp) :: 64 word)
      in days_since_epoch * kNanosecondsInADay + nanoseconds)"

section \<open>Physical values, logical types and arrays\<close>

datatype ParquetType =
  BooleanType | Int32Type | Int64Type | Int96Type | FloatType | DoubleType
  | ByteArrayType | FLBAType

text \<open>A decoded physical value; floating-point values are kept as their bit patterns.\<close>

datatype pvalue =
  PBool bool | PInt32 "32 word" | PInt64 "64 word" | PInt96 Int96
  | PFloat "32 word" | PDouble "64 word" | PByteArray "8 word list" | PFLBA "8 word list"

datatype TimeUnit = SECOND | MILLI | MICRO | NANO

text \<open>\<^verbatim>\<open>arrow::Type::type\<close> of a leaf field, with its parameters where the reader uses them.\<close>

datatype ArrowType =
  NA | BOOL | UINT8 | INT8 | UINT16 | INT16 | UINT32 | INT32 | UINT64 | INT64
  | HALF_FLOAT | FLOAT | DOUBLE | STRING | BINARY | FIXED_SIZE_BINARY int
  | DATE32 | DATE64 | TIMESTAMP TimeUnit | TIME32 | TIME64 | INTERVAL | DECIMAL

text \<open>A slot of an Arrow data buffer, by the width of the C type stored.\<close>

datatype avalue =
  ABool bool | AInt8 "8 word" | AInt16 "16 word" | AInt32 "32 word" | AInt64 "64 word"
  | AFloat "32 word" | ADouble "64 word" | ABinary "8 word list"

text \<open>
  Arrays: a null array of a given length; a primitive or binary array (type, length,
  data slots, validity bitmap if any, null count), where a slot that was never written
  is \<open>None\<close>; a list array (length, offsets, child, validity bitmap, null count); a
  struct array (length, children, validity bitmap, null count).
\<close>

datatype Array =
    NullArray int
  | PrimitiveArray ArrowType int "avalue option list" "bool list option" int
  | ListArray int "int list" Array "bool list option" int
  | StructArray int "Array list" "bool list option" int

fun array_length :: "Array \<Rightarrow> int" where
  "array_length (NullArray n) = n"
| "array_length (PrimitiveArray ty n d v c) = n"
| "array_length (ListArray n offs child v c) = n"
| "array_length (StructArray n cs v c) = n"

section \<open>The column chunk reader and the row group iterators\<close>

text \<open>
  Modelled from the spec: \<^verbatim>\<open>parquet::ColumnReader\<close>, the physical reader of one column
  chunk, which is consumed through the leaf-iterator interface and is not part of
  \<^verbatim>\<open>reader.cc\<close>.  A chunk is the sequence of its remaining level entries
  \<open>(definition level, repetition level, value)\<close>; the value of an entry counts only when
  its definition level is the column's maximum.
\<close>

record ColumnReader =
  physical_type :: ParquetType
  entries :: "(int \<times> int \<times> pvalue) list"

definition HasNext :: "ColumnReader \<Rightarrow> bool" where
  "HasNext r = (entries r \<noteq> [])"

record ColumnDescriptor =
  max_definition_level :: int
  max_repetition_level :: int
  is_optional :: bool
  repeated_parent :: bool
  top_parent_def_level :: int

text \<open>
  Modelled from the spec: \<^verbatim>\<open>read_batch(n)\<close> reads up to \<open>n\<close> level entries and returns
  their definition levels, their repetition levels and the values present.
\<close>

definition ReadBatch ::
  "int \<Rightarrow> ColumnDescriptor \<Rightarrow> ColumnReader \<Rightarrow> (int list \<times> int list \<times> pvalue list) \<times> ColumnReader" where
  "ReadBatch batch_size d r =
     (let k = min (nat batch_size) (length (entries r)); b = take k (entries r)
      in ((map fst b, map (\<lambda>e. fst (snd e)) b,
           map (\<lambda>e. snd (snd e)) (filter (\<lambda>e. fst e = max_definition_level d) b)),
          r\<lparr>entries := drop k (entries r)\<rparr>))"

text \<open>
  Modelled from the spec: the slot a level entry gets in a spaced read.  A value is
  present iff the definition level is the maximum.  With no repeated ancestor a lower
  level that is at least the min-space level is a null, below it no slot is produced;
  with a repeated ancestor only the maximum minus one is a null, and only for an
  optional leaf: a required element that is absent gets no slot.
\<close>

definition spaced_slot :: "ColumnDescriptor \<Rightarrow> int \<times> int \<times> pvalue \<Rightarrow> pvalue option option" where
  "spaced_slot d e =
     (if fst e = max_definition_level d then Some (Some (snd (snd e)))
      else if max_repetition_level d = 0
        then (if top_parent_def_level d \<le> fst e then Some None else None)
        else (if is_optional d \<and> fst e = max_definition_level d - 1 then Some None else None))"

text \<open>
  Modelled from the spec: \<^verbatim>\<open>read_batch_spaced(n)\<close> reads up to \<open>n\<close> level entries and
  returns the levels and the slots written; \<open>values_read\<close> is the number of slots and
  \<open>null_count\<close> the number of null slots among them.
\<close>

definition ReadBatchSpaced ::
  "int \<Rightarrow> ColumnDescriptor \<Rightarrow> ColumnReader \<Rightarrow> (int list \<times> int list \<times> pvalue option list) \<times> ColumnReader" where
  "ReadBatchSpaced batch_size d r =
     (let k = min (nat batch_size) (length (entries r)); b = take k (entries r)
      in ((map fst b, map (\<lambda>e. fst (snd e)) b, List.map_filter (spaced_slot d) b),
          r\<lparr>entries := drop k (entries r)\<rparr>))"

text \<open>
  \<^verbatim>\<open>AllRowGroupsIterator\<close> and \<^verbatim>\<open>SingleRowGroupIterator\<close>.  The first argument of
  \<open>Next\<close> is what \<^verbatim>\<open>reader_->RowGroup(j)->Column(column_index_)\<close> gives for each row
  group \<open>j\<close> of the file.  \<^verbatim>\<open>SingleRowGroupIterator\<close> asks for its row group without
  comparing the number with the number of row groups; what the file reader gives for a
  number out of range is not part of \<^verbatim>\<open>reader.cc\<close>, and is left open here.
\<close>

datatype FileColumnIterator =
    AllRowGroupsIterator nat
  | SingleRowGroupIterator nat bool

fun Next :: "ColumnReader list \<Rightarrow> FileColumnIterator \<Rightarrow> ColumnReader option \<times> FileColumnIterator" where
  "Next chunks (AllRowGroupsIterator next_row_group) =
     (if next_row_group < length chunks
      then (Some (chunks ! next_row_group), AllRowGroupsIterator (next_row_group + 1))
      else (None, AllRowGroupsIterator next_row_group))"
| "Next chunks (SingleRowGroupIterator row_group_number done) =
     (if done then (None, SingleRowGroupIterator row_group_number done)
      else (Some (chunks ! row_group_number), SingleRowGroupIterator row_group_number True))"

section \<open>The leaf reader \<^verbatim>\<open>PrimitiveImpl\<close>\<close>

text \<open>
  The state of a \<^verbatim>\<open>PrimitiveImpl\<close>.  \<open>chunks\<close> is the column's chunk in every row group
  of the file the iterator \<open>input\<close> walks over; \<open>field_type\<close> is the type of the field
  that \<^verbatim>\<open>NodeToField\<close> gave for the leaf.  A level buffer is kept as the list of the
  levels it holds (its size divided by \<^verbatim>\<open>sizeof(int16_t)\<close> is the length of the list);
  the batch reader keeps the number of levels they were resized to.
\<close>

record PrimitiveImpl =
  chunks :: "ColumnReader list"
  input :: FileColumnIterator
  descr :: ColumnDescriptor
  column_reader :: "ColumnReader option"
  field_type :: ArrowType
  def_levels_buffer :: "int list"
  rep_levels_buffer :: "int list"

definition NextRowGroup :: "PrimitiveImpl \<Rightarrow> PrimitiveImpl" where
  "NextRowGroup p =
     (case Next (chunks p) (input p) of (r, it) \<Rightarrow> p\<lparr>input := it, column_reader := r\<rparr>)"

text \<open>The constructor attaches the first column chunk.\<close>

definition PrimitiveImpl_new ::
  "ColumnReader list \<Rightarrow> FileColumnIterator \<Rightarrow> ColumnDescriptor \<Rightarrow> ArrowType \<Rightarrow> PrimitiveImpl" where
  "PrimitiveImpl_new cs it d ty =
     NextRowGroup \<lparr>chunks = cs, input = it, descr = d, column_reader = None, field_type = ty,
                   def_levels_buffer = [], rep_levels_buffer = []\<rparr>"

text \<open>
  The value stored in the Arrow buffer for a physical value, for each pair of an Arrow
  type and a Parquet type that \<^verbatim>\<open>NextBatch\<close> instantiates: a copy with the C conversion
  between the two element types, the days of a \<^verbatim>\<open>Date64\<close> scaled to milliseconds, an
  \<^verbatim>\<open>Int96\<close> timestamp converted to nanoseconds.  \<open>None\<close> for a value that is not of the
  physical type the instantiation reads.
\<close>

definition as_bool :: "pvalue \<Rightarrow> bool option" where
  "as_bool v = (case v of PBool b \<Rightarrow> Some b | _ \<Rightarrow> None)"

definition as_int32 :: "pvalue \<Rightarrow> 32 word option" where
  "as_int32 v = (case v of PInt32 w \<Rightarrow> Some w | _ \<Rightarrow> None)"

definition as_int64 :: "pvalue \<Rightarrow> 64 word option" where
  "as_int64 v = (case v of PInt64 w \<Rightarrow> Some w | _ \<Rightarrow> None)"

definition as_int96 :: "pvalue \<Rightarrow> Int96 option" where
  "as_int96 v = (case v of PInt96 w \<Rightarrow> Some w | _ \<Rightarrow> None)"

definition as_float :: "pvalue \<Rightarrow> 32 word option" where
  "as_float v = (case v of PFloat w \<Rightarrow> Some w | _ \<Rightarrow> None)"

definition as_double :: "pvalue \<Rightarrow> 64 word option" where
  "as_double v = (case v of PDouble w \<Rightarrow> Some w | _ \<Rightarrow> None)"

definition as_byte_array :: "pvalue \<Rightarrow> 8 word list option" where
  "as_byte_array v = (case v of PByteArray b \<Rightarrow> Some b | _ \<Rightarrow> None)"

definition as_flba :: "pvalue \<Rightarrow> 8 word list option" where
  "as_flba v = (case v of PFLBA b \<Rightarrow> Some b | _ \<Rightarrow> None)"

definition convert_value :: "ArrowType \<Rightarrow> pvalue \<Rightarrow> avalue option" where
  "convert_value ty v =
     (case ty of
        BOOL \<Rightarrow> map_option ABool (as_bool v)
      | UINT8 \<Rightarrow> map_option (\<lambda>w. AInt8 (ucast w)) (as_int32 v)
      | INT8 \<Rightarrow> map_option (\<lambda>w. AInt8 (ucast w)) (as_int32 v)
      | UINT16 \<Rightarrow> map_option (\<lambda>w. AInt16 (ucast w)) (as_int32 v)
      | INT16 \<Rightarrow> map_option (\<lambda>w. AInt16 (ucast w)) (as_int32 v)
      | UINT32 \<Rightarrow> map_option AInt32 (as_int32 v)
      | INT32 \<Rightarrow> map_option AInt32 (as_int32 v)
      | UINT64 \<Rightarrow> map_option AInt64 (as_int64 v)
      | INT64 \<Rightarrow> map_option AInt64 (as_int64 v)
      | FLOAT \<Rightarrow> map_option AFloat (as_float v)
      | DOUBLE \<Rightarrow> map_option ADouble (as_double v)
      | STRING \<Rightarrow> map_option ABinary (as_byte_array v)
      | BINARY \<Rightarrow> map_option ABinary (as_byte_array v)
      | FIXED_SIZE_BINARY byte_width \<Rightarrow> map_option ABinary (as_flba v)
      | DATE32 \<Rightarrow> map_option AInt32 (as_int32 v)
      | DATE64 \<Rightarrow> map_option (\<lambda>w. AInt64 (scast w * 86400000)) (as_int32 v)
      | TIMESTAMP unit \<Rightarrow>
          (case unit of
             MILLI \<Rightarrow> map_option AInt64 (as_int64 v)
           | MICRO \<Rightarrow> map_option AInt64 (as_int64 v)
           | NANO \<Rightarrow> map_option (\<lambda>w. AInt64 (impala_timestamp_to_nanoseconds w)) (as_int96 v)
           | SECOND \<Rightarrow> None)
      | TIME32 \<Rightarrow> map_option AInt32 (as_int32 v)
      | TIME64 \<Rightarrow> map_option AInt64 (as_int64 v)
      | _ \<Rightarrow> None)"

fun convert_values :: "ArrowType \<Rightarrow> pvalue list \<Rightarrow> avalue list option" where
  "convert_values ty [] = Some []"
| "convert_values ty (v # vs) =
     (case convert_value ty v of None \<Rightarrow> None
      | Some a \<Rightarrow> (case convert_values ty vs of None \<Rightarrow> None | Some as \<Rightarrow> Some (a # as)))"

fun convert_slots :: "ArrowType \<Rightarrow> pvalue option list \<Rightarrow> avalue option list option" where
  "convert_slots ty [] = Some []"
| "convert_slots ty (None # vs) =
     (case convert_slots ty vs of None \<Rightarrow> None | Some as \<Rightarrow> Some (None # as))"
| "convert_slots ty (Some v # vs) =
     (case convert_value ty v of None \<Rightarrow> None
      | Some a \<Rightarrow> (case convert_slots ty vs of None \<Rightarrow> None | Some as \<Rightarrow> Some (Some a # as)))"

text \<open>
  What a batch read has accumulated so far: the levels written to the level buffers
  (\<^verbatim>\<open>total_levels_read\<close> is their number), the slots written to the data buffer or
  appended to the builder (\<^verbatim>\<open>valid_bits_idx_\<close> is their number) and \<^verbatim>\<open>null_count_\<close>.
  \<open>acc_capacity\<close> is the number of levels the level buffers were resized to, the batch
  size.
\<close>

record BatchAcc =
  acc_def_levels :: "int list"
  acc_rep_levels :: "int list"
  acc_data :: "avalue option list"
  acc_null_count :: int
  acc_capacity :: int

definition empty_acc :: "int \<Rightarrow> BatchAcc" where
  "empty_acc batch_size =
     \<lparr>acc_def_levels = [], acc_rep_levels = [], acc_data = [], acc_null_count = 0,
      acc_capacity = batch_size\<rparr>"

text \<open>
  \<^verbatim>\<open>ReadNonNullableBatch\<close>, all specialisations: the values read are converted and
  written from slot \<^verbatim>\<open>valid_bits_idx_\<close> on.  The function hands the number of levels read
  back to \<^verbatim>\<open>TypedReadBatch\<close>, which subtracts it from \<^verbatim>\<open>values_to_read\<close>.
\<close>

definition ReadNonNullableBatch ::
  "ArrowType \<Rightarrow> ColumnDescriptor \<Rightarrow> int \<Rightarrow> BatchAcc \<Rightarrow> ColumnReader
     \<Rightarrow> Failure + (int \<times> BatchAcc \<times> ColumnReader)" where
  "ReadNonNullableBatch ty d values_to_read acc reader =
     (case ReadBatch values_to_read d reader of ((defs, reps, vals), reader') \<Rightarrow>
        (case convert_values ty vals of
           None \<Rightarrow> Inl (Crash BadCast)
         | Some out \<Rightarrow>
             Inr (values_to_read - int (length defs),
                  acc\<lparr>acc_data := acc_data acc @ map Some out\<rparr>, reader')))"

text \<open>
  \<^verbatim>\<open>ReadNullableBatch\<close>, all specialisations: a spaced read; the valid slots are
  converted, the levels are written after those of the earlier reads of the batch.
  \<^verbatim>\<open>TypedReadBatch\<close> subtracts the number of slots from \<^verbatim>\<open>values_to_read\<close>, not the
  number of levels, so the levels of a batch can outnumber the batch size: the read then
  writes past the end of the level buffers.
\<close>

definition ReadNullableBatch ::
  "ArrowType \<Rightarrow> ColumnDescriptor \<Rightarrow> int \<Rightarrow> BatchAcc \<Rightarrow> ColumnReader
     \<Rightarrow> Failure + (int \<times> BatchAcc \<times> ColumnReader)" where
  "ReadNullableBatch ty d values_to_read acc reader =
     (case ReadBatchSpaced values_to_read d reader of ((defs, reps, slots), reader') \<Rightarrow>
        (if acc_capacity acc < int (length (acc_def_levels acc)) + int (length defs)
         then Inl (Crash OutOfBounds)
         else
           (case convert_slots ty slots of
              None \<Rightarrow> Inl (Crash BadCast)
            | Some out \<Rightarrow>
                Inr (values_to_read - int (length out),
                     acc\<lparr>acc_def_levels := acc_def_levels acc @ defs,
                         acc_rep_levels := acc_rep_levels acc @ reps,
                         acc_data := acc_data acc @ out,
                         acc_null_count :=
                           acc_null_count acc + int (length (filter (\<lambda>s. s = None) out))\<rparr>,
                     reader'))))"

text \<open>
  The body of the loop of \<^verbatim>\<open>ReadByteArrayBatch\<close> up to the test of \<^verbatim>\<open>HasNext\<close>: the slots
  appended to the builder for the levels read.
\<close>

fun byte_array_slots ::
  "ColumnDescriptor \<Rightarrow> int list \<Rightarrow> pvalue list \<Rightarrow> (pvalue option list) option" where
  "byte_array_slots d [] vals = Some []"
| "byte_array_slots d (def_level # defs) vals =
     (if is_optional d \<and> def_level < max_definition_level d \<and> top_parent_def_level d \<le> def_level
      then map_option (\<lambda>r. None # r) (byte_array_slots d defs vals)
      else if def_level = max_definition_level d
      then (case vals of [] \<Rightarrow> None
            | v # vals' \<Rightarrow> map_option (\<lambda>r. Some v # r) (byte_array_slots d defs vals'))
      else byte_array_slots d defs vals)"

text \<open>The same for \<^verbatim>\<open>ReadFLBABatch\<close>, whose rule for a null looks at the parent node.\<close>

fun flba_slots ::
  "ColumnDescriptor \<Rightarrow> int list \<Rightarrow> pvalue list \<Rightarrow> (pvalue option list) option" where
  "flba_slots d [] vals = Some []"
| "flba_slots d (def_level # defs) vals =
     (if is_optional d \<and>
         ((repeated_parent d \<and> def_level = max_definition_level d - 1) \<or>
          (\<not> repeated_parent d \<and> def_level < max_definition_level d))
      then map_option (\<lambda>r. None # r) (flba_slots d defs vals)
      else if def_level = max_definition_level d
      then (case vals of [] \<Rightarrow> None
            | v # vals' \<Rightarrow> map_option (\<lambda>r. Some v # r) (flba_slots d defs vals'))
      else flba_slots d defs vals)"

text \<open>
  One read of \<^verbatim>\<open>ReadByteArrayBatch\<close> (\<open>flba = False\<close>) or \<^verbatim>\<open>ReadFLBABatch\<close>
  (\<open>flba = True\<close>).  With a maximum definition level of 0 the loop appends
  \<^verbatim>\<open>values[i]\<close> for every level read and the levels are not counted; reading more values
  than were decoded is a read out of bounds.
\<close>

definition ReadBinaryBatch_step ::
  "bool \<Rightarrow> ArrowType \<Rightarrow> ColumnDescriptor \<Rightarrow> int \<Rightarrow> BatchAcc \<Rightarrow> ColumnReader
     \<Rightarrow> Failure + (int \<times> BatchAcc \<times> ColumnReader)" where
  "ReadBinaryBatch_step flba ty d values_to_read acc reader =
     (case ReadBatch values_to_read d reader of ((defs, reps, vals), reader') \<Rightarrow>
        (if max_definition_level d = 0 then
           (if length vals < length defs then Inl (Crash OutOfBounds)
            else (case convert_values ty (take (length defs) vals) of
                    None \<Rightarrow> Inl (Crash BadCast)
                  | Some out \<Rightarrow>
                      Inr (values_to_read - int (length defs),
                           acc\<lparr>acc_data := acc_data acc @ map Some out\<rparr>, reader')))
         else
           (case (if flba then flba_slots d defs vals else byte_array_slots d defs vals) of
              None \<Rightarrow> Inl (Crash OutOfBounds)
            | Some slots \<Rightarrow>
                (case convert_slots ty slots of
                   None \<Rightarrow> Inl (Crash BadCast)
                 | Some out \<Rightarrow>
                     Inr (values_to_read - int (length defs),
                          acc\<lparr>acc_def_levels := acc_def_levels acc @ defs,
                              acc_rep_levels := acc_rep_levels acc @ reps,
                              acc_data := acc_data acc @ out,
                              acc_null_count :=
                                acc_null_count acc + int (length (filter (\<lambda>s. s = None) out))\<rparr>,
                          reader')))))"

text \<open>
  The three batch readers share their loop; \<open>ReadKind\<close> says whose body runs:
  \<^verbatim>\<open>TypedReadBatch<ArrowType, ParquetType>\<close>, \<^verbatim>\<open>ReadByteArrayBatch<ArrowType>\<close> or
  \<^verbatim>\<open>ReadFLBABatch<ArrowType>\<close>.  The \<^verbatim>\<open>dynamic_cast\<close> of the column reader to the typed
  reader gives a null pointer for a chunk of another physical type.
\<close>

datatype ReadKind = Typed ArrowType ParquetType | ByteArrayRead ArrowType | FLBARead ArrowType

definition read_step ::
  "ReadKind \<Rightarrow> ColumnDescriptor \<Rightarrow> int \<Rightarrow> BatchAcc \<Rightarrow> ColumnReader
     \<Rightarrow> Failure + (int \<times> BatchAcc \<times> ColumnReader)" where
  "read_step kind d values_to_read acc reader =
     (case kind of
        Typed ty pt \<Rightarrow>
          (if physical_type reader \<noteq> pt then Inl (Crash BadCast)
           else if max_definition_level d = 0
           then ReadNonNullableBatch ty d values_to_read acc reader
           else ReadNullableBatch ty d values_to_read acc reader)
      | ByteArrayRead ty \<Rightarrow>
          (if physical_type reader \<noteq> ByteArrayType then Inl (Crash BadCast)
           else ReadBinaryBatch_step False ty d values_to_read acc reader)
      | FLBARead ty \<Rightarrow>
          (if physical_type reader \<noteq> FLBAType then Inl (Crash BadCast)
           else ReadBinaryBatch_step True ty d values_to_read acc reader))"

text \<open>The chunks and level entries a leaf has not read yet; the loop's variant.\<close>

fun iterator_pending :: "ColumnReader list \<Rightarrow> FileColumnIterator \<Rightarrow> nat" where
  "iterator_pending cs (AllRowGroupsIterator j) =
     sum_list (map (\<lambda>r. Suc (length (entries r))) (drop j cs))"
| "iterator_pending cs (SingleRowGroupIterator g done) =
     (if done then 0 else Suc (length (entries (cs ! g))))"

definition leaf_pending :: "PrimitiveImpl \<Rightarrow> nat" where
  "leaf_pending p =
     (case column_reader p of None \<Rightarrow> 0 | Some r \<Rightarrow> Suc (length (entries r)))
       + iterator_pending (chunks p) (input p)"

definition after_read :: "PrimitiveImpl \<Rightarrow> ColumnReader \<Rightarrow> PrimitiveImpl" where
  "after_read p reader' =
     (if HasNext reader' then p\<lparr>column_reader := Some reader'\<rparr>
      else NextRowGroup (p\<lparr>column_reader := Some reader'\<rparr>))"

lemma read_step_entries:
  "read_step kind d v acc r = Inr (v', acc', r') \<Longrightarrow>
     entries r' = drop (min (nat v) (length (entries r))) (entries r)"
  by (auto simp: read_step_def ReadNonNullableBatch_def ReadNullableBatch_def
       ReadBinaryBatch_step_def ReadBatch_def ReadBatchSpaced_def Let_def
       split: ReadKind.splits if_splits option.splits prod.splits)

lemma Next_pending:
  "Next cs it = (r, it') \<Longrightarrow>
     (case r of None \<Rightarrow> 0 | Some r \<Rightarrow> Suc (length (entries r))) + iterator_pending cs it'
       = iterator_pending cs it"
  by (cases it) (auto simp: Cons_nth_drop_Suc[symmetric] split: if_splits)

lemma after_read_pending:
  "column_reader p = Some r \<Longrightarrow> \<not> v \<le> 0 \<Longrightarrow> read_step kind d v acc r = Inr (v', acc', r') \<Longrightarrow>
     leaf_pending (after_read p r') < leaf_pending p"
  apply (frule read_step_entries)
  apply (cases "Next (chunks p) (input p)")
  apply (frule Next_pending)
  apply (auto simp: after_read_def leaf_pending_def NextRowGroup_def HasNext_def
      split: option.splits)
  done

text \<open>
  The loop \<^verbatim>\<open>while ((values_to_read > 0) && column_reader_)\<close> of the batch readers: one
  read, then the next row group's chunk when the current one has nothing left.
\<close>

function read_loop ::
  "ReadKind \<Rightarrow> int \<Rightarrow> BatchAcc \<Rightarrow> PrimitiveImpl \<Rightarrow> Failure + (BatchAcc \<times> PrimitiveImpl)" where
  "read_loop kind values_to_read acc p =
     (case column_reader p of
        None \<Rightarrow> Inr (acc, p)
      | Some reader \<Rightarrow>
          if values_to_read \<le> 0 then Inr (acc, p)
          else (case read_step kind (descr p) values_to_read acc reader of
                  Inl f \<Rightarrow> Inl f
                | Inr (values_to_read', acc', reader') \<Rightarrow>
                    read_loop kind values_to_read' acc' (after_read p reader')))"
  by pat_completeness auto
termination
  by (relation "measure (\<lambda>(kind, v, acc, p). leaf_pending p)")
     (auto intro: after_read_pending)

declare read_loop.simps [simp del]

text \<open>
  After the loop the level buffers are resized to the levels read, the definition levels
  only for a column with a positive maximum definition level and the repetition levels
  only for one with a positive maximum repetition level.
\<close>

definition finish_levels :: "BatchAcc \<Rightarrow> PrimitiveImpl \<Rightarrow> PrimitiveImpl" where
  "finish_levels acc p =
     p\<lparr>def_levels_buffer :=
         (if 0 < max_definition_level (descr p) then acc_def_levels acc else def_levels_buffer p),
       rep_levels_buffer :=
         (if 0 < max_repetition_level (descr p) then acc_rep_levels acc else rep_levels_buffer p)\<rparr>"

text \<open>
  \<^verbatim>\<open>TypedReadBatch<ArrowType, ParquetType>\<close>, the Boolean specialisation included.  The
  array has \<^verbatim>\<open>valid_bits_idx_\<close> slots; it carries the validity bitmap and the null count
  only for a column with a positive maximum definition level.  A failure leaves no
  state to continue from; the model returns the state the call started in.
\<close>

definition TypedReadBatch ::
  "ArrowType \<Rightarrow> ParquetType \<Rightarrow> int \<Rightarrow> PrimitiveImpl \<Rightarrow> (Failure + Array option) \<times> PrimitiveImpl" where
  "TypedReadBatch ty pt batch_size p =
     (case read_loop (Typed ty pt) batch_size (empty_acc batch_size) p of
        Inl f \<Rightarrow> (Inl f, p)
      | Inr (acc, p') \<Rightarrow>
          (Inr (Some
             (if 0 < max_definition_level (descr p)
              then PrimitiveArray ty (int (length (acc_data acc))) (acc_data acc)
                     (Some (map (\<lambda>s. s \<noteq> None) (acc_data acc))) (acc_null_count acc)
              else PrimitiveArray ty (int (length (acc_data acc))) (acc_data acc) None 0)),
           finish_levels acc p'))"

text \<open>
  \<^verbatim>\<open>ReadByteArrayBatch<ArrowType>\<close> and \<^verbatim>\<open>ReadFLBABatch<ArrowType>\<close>: the array is what the
  builder finishes with, one slot for every value or null appended.
\<close>

definition ReadByteArrayBatch ::
  "ArrowType \<Rightarrow> int \<Rightarrow> PrimitiveImpl \<Rightarrow> (Failure + Array option) \<times> PrimitiveImpl" where
  "ReadByteArrayBatch ty batch_size p =
     (case read_loop (ByteArrayRead ty) batch_size (empty_acc batch_size) p of
        Inl f \<Rightarrow> (Inl f, p)
      | Inr (acc, p') \<Rightarrow>
          (Inr (Some (PrimitiveArray ty (int (length (acc_data acc))) (acc_data acc)
                        (Some (map (\<lambda>s. s \<noteq> None) (acc_data acc))) (acc_null_count acc))),
           finish_levels acc p'))"

definition ReadFLBABatch ::
  "ArrowType \<Rightarrow> int \<Rightarrow> PrimitiveImpl \<Rightarrow> (Failure + Array option) \<times> PrimitiveImpl" where
  "ReadFLBABatch ty batch_size p =
     (case read_loop (FLBARead ty) batch_size (empty_acc batch_size) p of
        Inl f \<Rightarrow> (Inl f, p)
      | Inr (acc, p') \<Rightarrow>
          (Inr (Some (PrimitiveArray ty (int (length (acc_data acc))) (acc_data acc)
                        (Some (map (\<lambda>s. s \<noteq> None) (acc_data acc))) (acc_null_count acc))),
           finish_levels acc p'))"

text \<open>
  \<^verbatim>\<open>PrimitiveImpl::NextBatch\<close>.  The result is the status together with \<^verbatim>\<open>*out\<close>: \<open>None\<close>
  is the null pointer.  The message of the last case ends with the name of the type,
  which is left out here.
\<close>

definition PrimitiveImpl_NextBatch ::
  "int \<Rightarrow> PrimitiveImpl \<Rightarrow> (Failure + Array option) \<times> PrimitiveImpl" where
  "PrimitiveImpl_NextBatch batch_size p =
     (case column_reader p of
        None \<Rightarrow> (Inr None, p)
      | Some reader \<Rightarrow>
          (case field_type p of
             NA \<Rightarrow> (Inr (Some (NullArray batch_size)), p)
           | BOOL \<Rightarrow> TypedReadBatch BOOL BooleanType batch_size p
           | UINT8 \<Rightarrow> TypedReadBatch UINT8 Int32Type batch_size p
           | INT8 \<Rightarrow> TypedReadBatch INT8 Int32Type batch_size p
           | UINT16 \<Rightarrow> TypedReadBatch UINT16 Int32Type batch_size p
           | INT16 \<Rightarrow> TypedReadBatch INT16 Int32Type batch_size p
           | UINT32 \<Rightarrow> TypedReadBatch UINT32 Int32Type batch_size p
           | INT32 \<Rightarrow> TypedReadBatch INT32 Int32Type batch_size p
           | UINT64 \<Rightarrow> TypedReadBatch UINT64 Int64Type batch_size p
           | INT64 \<Rightarrow> TypedReadBatch INT64 Int64Type batch_size p
           | FLOAT \<Rightarrow> TypedReadBatch FLOAT FloatType batch_size p
           | DOUBLE \<Rightarrow> TypedReadBatch DOUBLE DoubleType batch_size p
           | STRING \<Rightarrow> ReadByteArrayBatch STRING batch_size p
           | BINARY \<Rightarrow> ReadByteArrayBatch BINARY batch_size p
           | DATE32 \<Rightarrow> TypedReadBatch DATE32 Int32Type batch_size p
           | DATE64 \<Rightarrow> TypedReadBatch DATE64 Int32Type batch_size p
           | FIXED_SIZE_BINARY byte_width \<Rightarrow>
               ReadFLBABatch (FIXED_SIZE_BINARY byte_width) batch_size p
           | TIMESTAMP unit \<Rightarrow>
               (case unit of
                  MILLI \<Rightarrow> TypedReadBatch (TIMESTAMP MILLI) Int64Type batch_size p
                | MICRO \<Rightarrow> TypedReadBatch (TIMESTAMP MICRO) Int64Type batch_size p
                | NANO \<Rightarrow> TypedReadBatch (TIMESTAMP NANO) Int96Type batch_size p
                | SECOND \<Rightarrow>
                    (Inl (StatusError (Status NotImplemented ''TimeUnit not supported'')), p))
           | TIME32 \<Rightarrow> TypedReadBatch TIME32 Int32Type batch_size p
           | TIME64 \<Rightarrow> TypedReadBatch TIME64 Int64Type batch_size p
           | _ \<Rightarrow>
               (Inl (StatusError
                  (Status NotImplemented ''No support for reading columns of type'')), p)))"

text \<open>
  For a leaf as the constructor and \<^verbatim>\<open>NextBatch\<close> leave it, the iterator has no chunk left to
  hand out whenever no chunk is attached.
\<close>

definition leaf_inv :: "PrimitiveImpl \<Rightarrow> bool" where
  "leaf_inv p = (column_reader p = None \<longrightarrow> iterator_pending (chunks p) (input p) = 0)"

section \<open>The assembler tree\<close>

text \<open>
  \<^verbatim>\<open>ColumnReader::Impl\<close> and its three subclasses.  A \<^verbatim>\<open>ListImpl\<close> holds its child, its
  definition and repetition level, \<^verbatim>\<open>min_space_def_level_\<close> and the two level buffers
  it builds on demand (\<open>None\<close> is the null pointer); its child is never null, since
  the constructor dereferences it.  A \<^verbatim>\<open>StructImpl\<close> holds its children and its levels;
  \<open>struct_top_parent_def_level\<close> is the value of
  \<^verbatim>\<open>GetTopNonRepeatedParentLevel(node_.get(), struct_def_level_)\<close>, a function of the
  schema that is not part of \<^verbatim>\<open>reader.cc\<close>.
\<close>

datatype Impl =
    ImplPrimitive (primitive: PrimitiveImpl)
  | ImplList (child: Impl) (list_def_level: int) (list_rep_level: int)
      (min_space_def_level: int)
      (list_def_levels_buffer: "int list option") (list_rep_levels_buffer: "int list option")
  | ImplStruct (children: "Impl list") (struct_def_level: int) (struct_rep_level: int)
      (struct_top_parent_def_level: int)

fun max_def_level :: "Impl \<Rightarrow> int" where
  "max_def_level (ImplPrimitive p) = max_definition_level (descr p)"
| "max_def_level (ImplList c ld lr ms dbuf rbuf) = ld"
| "max_def_level (ImplStruct cs sd sr tp) = sd"

fun max_rep_level :: "Impl \<Rightarrow> int" where
  "max_rep_level (ImplPrimitive p) = max_repetition_level (descr p)"
| "max_rep_level (ImplList c ld lr ms dbuf rbuf) = lr"
| "max_rep_level (ImplStruct cs sd sr tp) = sr"

text \<open>
  \<^verbatim>\<open>std::memset\<close> writes the low byte of its argument to every byte, so every
  \<^verbatim>\<open>int16_t\<close> of the buffer holds that byte twice.
\<close>

definition memset_int16 :: "int \<Rightarrow> int" where
  "memset_int16 c =
     (let b = c mod 256; v = b * 256 + b in if v < 32768 then v else v - 65536)"

definition cons_ok :: "'a \<Rightarrow> Failure + 'a list \<Rightarrow> Failure + 'a list" where
  "cons_ok x r = (case r of Inl f \<Rightarrow> Inl f | Inr xs \<Rightarrow> Inr (x # xs))"

subsection \<open>Repetition levels\<close>

text \<open>
  The loops of \<^verbatim>\<open>ListImpl::GetRepLevels\<close>: \<open>level\<close> is the minimum taken so far in the
  list that is being walked, the list argument the child's repetition levels from
  position \<open>i\<close> on.
\<close>

fun ListImpl_rep_groups :: "int \<Rightarrow> int \<Rightarrow> int \<Rightarrow> int list \<Rightarrow> int list" where
  "ListImpl_rep_groups lr child_max_repetition level [] = [level]"
| "ListImpl_rep_groups lr child_max_repetition level (r # rs) =
     (if child_max_repetition \<le> r
      then ListImpl_rep_groups lr child_max_repetition (min level r) rs
      else level # ListImpl_rep_groups lr child_max_repetition (min lr r) rs)"

text \<open>
  The levels are appended to an \<^verbatim>\<open>Int16Builder\<close> and the builder's buffer becomes the
  level buffer.  A builder that nothing was appended to has no buffer: with no levels
  from the child the level buffer stays the null pointer, and the function dereferences
  it.
\<close>

definition ListImpl_rep_levels :: "int \<Rightarrow> int \<Rightarrow> int list \<Rightarrow> Failure + int list" where
  "ListImpl_rep_levels lr child_max_repetition child_rep_levels =
     (case child_rep_levels of
        [] \<Rightarrow> Inl (Crash NullPointer)
      | r # rs \<Rightarrow> Inr (ListImpl_rep_groups lr child_max_repetition (min lr r) rs))"

text \<open>
  The inner loop of \<^verbatim>\<open>StructImpl::GetRepLevels\<close> for one child: it runs over the length
  of the first child's levels, and reads past the end of a shorter child's levels.
\<close>

fun StructImpl_rep_merge :: "int list \<Rightarrow> int list \<Rightarrow> Failure + int list" where
  "StructImpl_rep_merge [] cs = Inr []"
| "StructImpl_rep_merge (r # rs) [] = Inl (Crash OutOfBounds)"
| "StructImpl_rep_merge (r # rs) (c # cs) = cons_ok (min r c) (StructImpl_rep_merge rs cs)"

definition StructImpl_rep_child :: "Build \<Rightarrow> int list \<Rightarrow> int list \<Rightarrow> Failure + int list" where
  "StructImpl_rep_child b result_levels child_rep_levels =
     (if b = Debug \<and> length child_rep_levels \<noteq> length result_levels
      then Inl (Crash DCheckFailed)
      else StructImpl_rep_merge result_levels child_rep_levels)"

text \<open>
  \<^verbatim>\<open>GetRepLevels\<close> of the three classes; the second function is the loop over the
  children of a \<^verbatim>\<open>StructImpl\<close>.  The result carries the state after the call, since a
  \<^verbatim>\<open>ListImpl\<close> keeps the levels it has built.  A \<^verbatim>\<open>StructImpl\<close> asks its first child
  twice: once for the length, and once more in the loop.
\<close>

function GetRepLevels :: "Build \<Rightarrow> Impl \<Rightarrow> (Failure + int list) \<times> Impl"
  and StructImpl_GetRepLevels_loop ::
    "Build \<Rightarrow> int list \<Rightarrow> Impl list \<Rightarrow> (Failure + int list) \<times> Impl list"
where
  "GetRepLevels b (ImplPrimitive p) = (Inr (rep_levels_buffer p), ImplPrimitive p)"
| "GetRepLevels b (ImplList c ld lr ms dbuf rbuf) =
     (case rbuf of
        Some levels \<Rightarrow> (Inr levels, ImplList c ld lr ms dbuf rbuf)
      | None \<Rightarrow>
          (case GetRepLevels b c of
             (Inl f, c') \<Rightarrow> (Inl f, ImplList c' ld lr ms dbuf None)
           | (Inr child_rep_levels, c') \<Rightarrow>
               (case ListImpl_rep_levels lr (max_rep_level c') child_rep_levels of
                  Inl f \<Rightarrow> (Inl f, ImplList c' ld lr ms dbuf None)
                | Inr levels \<Rightarrow> (Inr levels, ImplList c' ld lr ms dbuf (Some levels)))))"
| "GetRepLevels b (ImplStruct [] sd sr tp) = (Inr [], ImplStruct [] sd sr tp)"
| "GetRepLevels b (ImplStruct (c # cs) sd sr tp) =
     (case GetRepLevels b c of
        (Inl f, c') \<Rightarrow> (Inl f, ImplStruct (c' # cs) sd sr tp)
      | (Inr child_rep_levels, c') \<Rightarrow>
          (case StructImpl_GetRepLevels_loop b
                  (replicate (length child_rep_levels) (memset_int16 (max_rep_level c')))
                  (c' # cs) of
             (r, cs') \<Rightarrow> (r, ImplStruct cs' sd sr tp)))"
| "StructImpl_GetRepLevels_loop b result_levels [] = (Inr result_levels, [])"
| "StructImpl_GetRepLevels_loop b result_levels (c # cs) =
     (case GetRepLevels b c of
        (Inl f, c') \<Rightarrow> (Inl f, c' # cs)
      | (Inr child_rep_levels, c') \<Rightarrow>
          (case StructImpl_rep_child b result_levels child_rep_levels of
             Inl f \<Rightarrow> (Inl f, c' # cs)
           | Inr result_levels' \<Rightarrow>
               (case StructImpl_GetRepLevels_loop b result_levels' cs of
                  (r, cs') \<Rightarrow> (r, c' # cs'))))"
  by pat_completeness auto

lemma GetRepLevels_size:
  "GetRepLevels_StructImpl_GetRepLevels_loop_dom (Inl (b, t)) \<Longrightarrow>
     size (snd (GetRepLevels b t)) = size t"
  "GetRepLevels_StructImpl_GetRepLevels_loop_dom (Inr (b, res, cs)) \<Longrightarrow>
     size_list size (snd (StructImpl_GetRepLevels_loop b res cs)) = size_list size cs"
  by (induction b t and b res cs rule: GetRepLevels_StructImpl_GetRepLevels_loop.pinduct)
     (fastforce simp: GetRepLevels.psimps StructImpl_GetRepLevels_loop.psimps Let_def
        split: option.splits prod.splits sum.splits)+

termination GetRepLevels
  apply (relation "measure (\<lambda>x. case x of Inl (b, t) \<Rightarrow> size t
                                 | Inr (b, res, cs) \<Rightarrow> size_list size cs)")
       apply (auto simp: GetRepLevels_size)
  apply (metis GetRepLevels_size(1) less_Suc_eq snd_eqD)
  done

subsection \<open>Definition levels\<close>

text \<open>
  The loops of \<^verbatim>\<open>ListImpl::GetDefLevels\<close>: \<open>def_level\<close> is the maximum taken so far in
  the list that is being walked; the two list arguments are the child's definition and
  repetition levels from position \<open>i\<close> on.  The loop runs over the length of the
  definition levels and reads past the end of shorter repetition levels.  As in
  \<^verbatim>\<open>GetRepLevels\<close>, with no levels from the child the level buffer is the null pointer
  that the function dereferences.
\<close>

fun ListImpl_def_groups ::
  "int \<Rightarrow> int \<Rightarrow> int \<Rightarrow> int list \<Rightarrow> int list \<Rightarrow> Failure + int list" where
  "ListImpl_def_groups ld child_max_repetition def_level [] rs = Inr [min def_level ld]"
| "ListImpl_def_groups ld child_max_repetition def_level (d # ds) [] = Inl (Crash OutOfBounds)"
| "ListImpl_def_groups ld child_max_repetition def_level (d # ds) (r # rs) =
     (if child_max_repetition \<le> r
      then ListImpl_def_groups ld child_max_repetition (max def_level d) ds rs
      else cons_ok (min def_level ld)
             (ListImpl_def_groups ld child_max_repetition (max (- 1) d) ds rs))"

definition ListImpl_def_levels ::
  "Build \<Rightarrow> int \<Rightarrow> int \<Rightarrow> int list \<Rightarrow> int list \<Rightarrow> Failure + int list" where
  "ListImpl_def_levels b ld child_max_repetition child_def_levels child_rep_levels =
     (if b = Debug \<and> length child_def_levels \<noteq> length child_rep_levels
      then Inl (Crash DCheckFailed)
      else (case child_def_levels of
              [] \<Rightarrow> Inl (Crash NullPointer)
            | d # ds \<Rightarrow>
                ListImpl_def_groups ld child_max_repetition (max (- 1) d) ds
                  (drop 1 child_rep_levels)))"

text \<open>
  The inner loop of \<^verbatim>\<open>StructImpl::GetDefLevels\<close> for one child, with its \<^verbatim>\<open>DCHECK\<close> that
  the children agree on whether the struct is defined.
\<close>

fun StructImpl_def_merge :: "Build \<Rightarrow> int \<Rightarrow> int list \<Rightarrow> int list \<Rightarrow> Failure + int list" where
  "StructImpl_def_merge b sd [] cs = Inr []"
| "StructImpl_def_merge b sd (r # rs) [] = Inl (Crash OutOfBounds)"
| "StructImpl_def_merge b sd (r # rs) (c # cs) =
     (if b = Debug \<and> \<not> (r = - 1 \<or> ((sd \<le> r) = (sd \<le> c)))
      then Inl (Crash DCheckFailed)
      else cons_ok (max r (min c sd)) (StructImpl_def_merge b sd rs cs))"

definition StructImpl_def_child ::
  "Build \<Rightarrow> int \<Rightarrow> int list \<Rightarrow> int list \<Rightarrow> Failure + int list" where
  "StructImpl_def_child b sd result_levels child_def_levels =
     (if b = Debug \<and> length child_def_levels \<noteq> length result_levels
      then Inl (Crash DCheckFailed)
      else StructImpl_def_merge b sd result_levels child_def_levels)"

text \<open>
  The two outer loops of \<^verbatim>\<open>StructImpl::GetDefLevels\<close> on the level streams the children
  return: the buffer has the length of the first child's stream and starts at what
  \<^verbatim>\<open>memset\<close> with \<^verbatim>\<open>-1\<close> leaves in it.
\<close>

fun StructImpl_def_fold :: "Build \<Rightarrow> int \<Rightarrow> int list \<Rightarrow> int list list \<Rightarrow> Failure + int list" where
  "StructImpl_def_fold b sd result_levels [] = Inr result_levels"
| "StructImpl_def_fold b sd result_levels (child_def_levels # rest) =
     (case StructImpl_def_child b sd result_levels child_def_levels of
        Inl f \<Rightarrow> Inl f
      | Inr result_levels' \<Rightarrow> StructImpl_def_fold b sd result_levels' rest)"

definition StructImpl_merge_def_levels :: "Build \<Rightarrow> int \<Rightarrow> int list list \<Rightarrow> Failure + int list" where
  "StructImpl_merge_def_levels b sd streams =
     (case streams of
        [] \<Rightarrow> Inr []
      | first # rest \<Rightarrow>
          StructImpl_def_fold b sd (replicate (length first) (memset_int16 (- 1))) streams)"

text \<open>\<^verbatim>\<open>GetDefLevels\<close> of the three classes, and the loop over a struct's children.\<close>

function GetDefLevels :: "Build \<Rightarrow> Impl \<Rightarrow> (Failure + int list) \<times> Impl"
  and StructImpl_GetDefLevels_loop ::
    "Build \<Rightarrow> int \<Rightarrow> int list \<Rightarrow> Impl list \<Rightarrow> (Failure + int list) \<times> Impl list"
where
  "GetDefLevels b (ImplPrimitive p) = (Inr (def_levels_buffer p), ImplPrimitive p)"
| "GetDefLevels b (ImplList c ld lr ms dbuf rbuf) =
     (case dbuf of
        Some levels \<Rightarrow> (Inr levels, ImplList c ld lr ms dbuf rbuf)
      | None \<Rightarrow>
          (case GetDefLevels b c of
             (Inl f, c') \<Rightarrow> (Inl f, ImplList c' ld lr ms None rbuf)
           | (Inr child_def_levels, c') \<Rightarrow>
               (case GetRepLevels b c' of
                  (Inl f, c'') \<Rightarrow> (Inl f, ImplList c'' ld lr ms None rbuf)
                | (Inr child_rep_levels, c'') \<Rightarrow>
                    (case ListImpl_def_levels b ld (max_rep_level c'')
                            child_def_levels child_rep_levels of
                       Inl f \<Rightarrow> (Inl f, ImplList c'' ld lr ms None rbuf)
                     | Inr levels \<Rightarrow> (Inr levels, ImplList c'' ld lr ms (Some levels) rbuf)))))"
| "GetDefLevels b (ImplStruct [] sd sr tp) = (Inr [], ImplStruct [] sd sr tp)"
| "GetDefLevels b (ImplStruct (c # cs) sd sr tp) =
     (case GetDefLevels b c of
        (Inl f, c') \<Rightarrow> (Inl f, ImplStruct (c' # cs) sd sr tp)
      | (Inr child_def_levels, c') \<Rightarrow>
          (case StructImpl_GetDefLevels_loop b sd
                  (replicate (length child_def_levels) (memset_int16 (- 1))) (c' # cs) of
             (r, cs') \<Rightarrow> (r, ImplStruct cs' sd sr tp)))"
| "StructImpl_GetDefLevels_loop b sd result_levels [] = (Inr result_levels, [])"
| "StructImpl_GetDefLevels_loop b sd result_levels (c # cs) =
     (case GetDefLevels b c of
        (Inl f, c') \<Rightarrow> (Inl f, c' # cs)
      | (Inr child_def_levels, c') \<Rightarrow>
          (case StructImpl_def_child b sd result_levels child_def_levels of
             Inl f \<Rightarrow> (Inl f, c' # cs)
           | Inr result_levels' \<Rightarrow>
               (case StructImpl_GetDefLevels_loop b sd result_levels' cs of
                  (r, cs') \<Rightarrow> (r, c' # cs'))))"
  by pat_completeness auto

lemma GetRepLevels_size_total:
  "size (snd (GetRepLevels b t)) = size t"
  "size_list size (snd (StructImpl_GetRepLevels_loop b res cs)) = size_list size cs"
  by (induction b t and b res cs rule: GetRepLevels_StructImpl_GetRepLevels_loop.induct)
     (fastforce simp: Let_def split: option.splits prod.splits sum.splits)+

lemma GetDefLevels_size:
  "GetDefLevels_StructImpl_GetDefLevels_loop_dom (Inl (b, t)) \<Longrightarrow>
     size (snd (GetDefLevels b t)) = size t"
  "GetDefLevels_StructImpl_GetDefLevels_loop_dom (Inr (b, sd, res, cs)) \<Longrightarrow>
     size_list size (snd (StructImpl_GetDefLevels_loop b sd res cs)) = size_list size cs"
proof (induction b t and b sd res cs rule: GetDefLevels_StructImpl_GetDefLevels_loop.pinduct)
  case (2 b c ld lr ms dbuf rbuf)
  then show ?case
    using GetRepLevels_size_total(1)[of b "snd (GetDefLevels b c)"]
    by (fastforce simp: GetDefLevels.psimps split: option.splits prod.splits sum.splits)
qed (fastforce simp: GetDefLevels.psimps StructImpl_GetDefLevels_loop.psimps
       split: option.splits prod.splits sum.splits)+

termination GetDefLevels
  apply (relation "measure (\<lambda>x. case x of Inl (b, t) \<Rightarrow> size t
                                 | Inr (b, sd, res, cs) \<Rightarrow> size_list size cs)")
       apply (auto simp: GetDefLevels_size)
  apply (metis GetDefLevels_size(1) less_Suc_eq snd_eqD)
  done

subsection \<open>List arrays\<close>

text \<open>
  The loop of \<^verbatim>\<open>ListImpl::DefLevelsToNullArray\<close>: the bits appended to the bitmap builder
  and the null count.
\<close>

fun ListImpl_null_bits :: "int \<Rightarrow> int \<Rightarrow> int list \<Rightarrow> bool list \<times> int" where
  "ListImpl_null_bits ld ms [] = ([], 0)"
| "ListImpl_null_bits ld ms (d # ds) =
     (case ListImpl_null_bits ld ms ds of
        (bits, null_count) \<Rightarrow>
          if ld \<le> d then (True # bits, null_count)
          else if ms \<le> d then (False # bits, null_count + 1)
          else (bits, null_count))"

definition ListImpl_DefLevelsToNullArray ::
  "Build \<Rightarrow> Impl \<Rightarrow> (Failure + (bool list option \<times> int)) \<times> Impl" where
  "ListImpl_DefLevelsToNullArray b t =
     (case GetDefLevels b t of
        (Inl f, t') \<Rightarrow> (Inl f, t')
      | (Inr def_levels_data, t') \<Rightarrow>
          (case ListImpl_null_bits (list_def_level t) (min_space_def_level t) def_levels_data of
             (bits, null_count) \<Rightarrow>
               (Inr (if null_count = 0 then None else Some bits, null_count), t')))"

text \<open>
  The \<^verbatim>\<open>do ... while\<close> of \<^verbatim>\<open>ListImpl::RepLevelsToOffsetsArray\<close> after its first round:
  the two lists are the child's definition and repetition levels from
  \<^verbatim>\<open>child_level_idx\<close> on, the number is \<^verbatim>\<open>child_val_idx\<close>.  \<^verbatim>\<open>child_length\<close> is the length
  of the repetition levels.
\<close>

fun ListImpl_walk :: "int \<Rightarrow> int list \<Rightarrow> int list \<Rightarrow> int \<Rightarrow> int list \<times> int list \<times> int" where
  "ListImpl_walk lr cds [] child_val_idx = (cds, [], child_val_idx)"
| "ListImpl_walk lr cds (r # crs) child_val_idx =
     (if lr < r then ListImpl_walk lr (drop 1 cds) crs (child_val_idx + 1)
      else (cds, r # crs, child_val_idx))"

text \<open>
  The \<^verbatim>\<open>for\<close> loop of \<^verbatim>\<open>ListImpl::RepLevelsToOffsetsArray\<close>: the offsets appended after
  the first one.  Reading \<^verbatim>\<open>child_def_levels[child_level_idx]\<close> past the end of the
  child's definition levels is a read out of bounds.
\<close>

fun ListImpl_offsets_loop ::
  "int \<Rightarrow> int \<Rightarrow> int \<Rightarrow> int list \<Rightarrow> int list \<Rightarrow> int list \<Rightarrow> int \<Rightarrow> Failure + int list" where
  "ListImpl_offsets_loop ld lr ms [] cds crs child_val_idx = Inr []"
| "ListImpl_offsets_loop ld lr ms (d # ds) cds crs child_val_idx =
     (if d = ld \<and> cds = [] then Inl (Crash OutOfBounds)
      else
        (case (if d = ld \<and> ld < hd cds
               then ListImpl_walk lr (drop 1 cds) (drop 1 crs) (child_val_idx + 1)
               else (drop 1 cds, drop 1 crs, child_val_idx)) of
           (cds', crs', child_val_idx') \<Rightarrow>
             if ms \<le> d
             then cons_ok child_val_idx'
                    (ListImpl_offsets_loop ld lr ms ds cds' crs' child_val_idx')
             else ListImpl_offsets_loop ld lr ms ds cds' crs' child_val_idx'))"

fun with_child :: "Impl \<Rightarrow> Impl \<Rightarrow> Impl" where
  "with_child (ImplList c ld lr ms dbuf rbuf) c' = ImplList c' ld lr ms dbuf rbuf"
| "with_child t c' = t"

definition ListImpl_RepLevelsToOffsetsArray ::
  "Build \<Rightarrow> Impl \<Rightarrow> (Failure + (int list \<times> int)) \<times> Impl" where
  "ListImpl_RepLevelsToOffsetsArray b t =
     (case GetDefLevels b t of
        (Inl f, t1) \<Rightarrow> (Inl f, t1)
      | (Inr def_levels_data, t1) \<Rightarrow>
          (case GetDefLevels b (child t1) of
             (Inl f, c1) \<Rightarrow> (Inl f, with_child t1 c1)
           | (Inr child_def_levels, c1) \<Rightarrow>
               (case GetRepLevels b c1 of
                  (Inl f, c2) \<Rightarrow> (Inl f, with_child t1 c2)
                | (Inr child_rep_levels, c2) \<Rightarrow>
                    (case ListImpl_offsets_loop (list_def_level t1) (list_rep_level t1)
                            (min_space_def_level t1) def_levels_data
                            child_def_levels child_rep_levels 0 of
                       Inl f \<Rightarrow> (Inl f, with_child t1 c2)
                     | Inr offsets \<Rightarrow>
                         (Inr (0 # offsets, int (length offsets)), with_child t1 c2)))))"

subsection \<open>Struct arrays\<close>

text \<open>The loop of \<^verbatim>\<open>StructImpl::DefLevelsToNullArray\<close>.\<close>

fun StructImpl_null_bits :: "int \<Rightarrow> int \<Rightarrow> int list \<Rightarrow> bool list \<times> int" where
  "StructImpl_null_bits sd top_parent [] = ([], 0)"
| "StructImpl_null_bits sd top_parent (d # ds) =
     (case StructImpl_null_bits sd top_parent ds of
        (bits, null_count) \<Rightarrow>
          if d < sd
          then (if top_parent \<le> d then (False # bits, null_count + 1) else (bits, null_count))
          else (True # bits, null_count))"

definition StructImpl_DefLevelsToNullArray ::
  "Build \<Rightarrow> Impl \<Rightarrow> (Failure + (bool list option \<times> int)) \<times> Impl" where
  "StructImpl_DefLevelsToNullArray b t =
     (case GetDefLevels b t of
        (Inl f, t') \<Rightarrow> (Inl f, t')
      | (Inr def_levels_data, t') \<Rightarrow>
          (case StructImpl_null_bits (struct_def_level t) (struct_top_parent_def_level t)
                  def_levels_data of
             (bits, null_count) \<Rightarrow>
               (Inr (if null_count = 0 then None else Some bits, null_count), t')))"

subsection \<open>\<^verbatim>\<open>NextBatch\<close>\<close>

text \<open>
  \<^verbatim>\<open>NextBatch\<close> of the three classes; the second function is the loop of
  \<^verbatim>\<open>StructImpl::NextBatch\<close> that gathers the children's arrays and stops at the first child
  that fails or has nothing left.
\<close>

fun NextBatch :: "Build \<Rightarrow> int \<Rightarrow> Impl \<Rightarrow> (Failure + Array option) \<times> Impl"
  and StructImpl_NextBatch_children ::
    "Build \<Rightarrow> int \<Rightarrow> Impl list \<Rightarrow> (Failure + Array list option) \<times> Impl list"
where
  "NextBatch b batch_size (ImplPrimitive p) =
     (case PrimitiveImpl_NextBatch batch_size p of (r, p') \<Rightarrow> (r, ImplPrimitive p'))"
| "NextBatch b batch_size (ImplList c ld lr ms dbuf rbuf) =
     (case NextBatch b batch_size c of
        (Inl f, c') \<Rightarrow> (Inl f, ImplList c' ld lr ms None None)
      | (Inr None, c') \<Rightarrow> (Inr None, ImplList c' ld lr ms None None)
      | (Inr (Some child_array), c') \<Rightarrow>
          (case ListImpl_DefLevelsToNullArray b (ImplList c' ld lr ms None None) of
             (Inl f, t1) \<Rightarrow> (Inl f, t1)
           | (Inr (null_bitmap, null_count), t1) \<Rightarrow>
               (case ListImpl_RepLevelsToOffsetsArray b t1 of
                  (Inl f, t2) \<Rightarrow> (Inl f, t2)
                | (Inr (offsets, list_length), t2) \<Rightarrow>
                    (Inr (Some (ListArray list_length offsets child_array
                                  null_bitmap null_count)), t2))))"
| "NextBatch b batch_size (ImplStruct cs sd sr tp) =
     (case StructImpl_NextBatch_children b batch_size cs of
        (Inl f, cs') \<Rightarrow> (Inl f, ImplStruct cs' sd sr tp)
      | (Inr None, cs') \<Rightarrow> (Inr None, ImplStruct cs' sd sr tp)
      | (Inr (Some children_arrays), cs') \<Rightarrow>
          (case StructImpl_DefLevelsToNullArray b (ImplStruct cs' sd sr tp) of
             (Inl f, t1) \<Rightarrow> (Inl f, t1)
           | (Inr (null_bitmap, null_count), t1) \<Rightarrow>
               (case children_arrays of
                  [] \<Rightarrow> (Inl (Crash OutOfBounds), t1)
                | first # rest \<Rightarrow>
                    (Inr (Some (StructArray (array_length first) children_arrays
                                  null_bitmap null_count)), t1))))"
| "StructImpl_NextBatch_children b batch_size [] = (Inr (Some []), [])"
| "StructImpl_NextBatch_children b batch_size (c # cs) =
     (case NextBatch b batch_size c of
        (Inl f, c') \<Rightarrow> (Inl f, c' # cs)
      | (Inr None, c') \<Rightarrow> (Inr None, c' # cs)
      | (Inr (Some child_array), c') \<Rightarrow>
          (case StructImpl_NextBatch_children b batch_size cs of
             (Inl f, cs') \<Rightarrow> (Inl f, c' # cs')
           | (Inr None, cs') \<Rightarrow> (Inr None, c' # cs')
           | (Inr (Some children_arrays), cs') \<Rightarrow>
               (Inr (Some (child_array # children_arrays)), c' # cs')))"

section \<open>Building the assembler tree and reading a field\<close>

text \<open>
  The Parquet schema, as far as \<^verbatim>\<open>GetReaderForNode\<close> looks at it.  A primitive node carries
  its column index (\<^verbatim>\<open>schema()->ColumnIndex(*node)\<close>).  A group node carries what the
  helpers of \<^verbatim>\<open>schema-util.h\<close>, which are not part of \<^verbatim>\<open>reader.cc\<close>, say about it:
  whether \<^verbatim>\<open>IsStruct\<close> holds, and \<^verbatim>\<open>GetTopNonRepeatedParentLevel\<close> of the node as a
  function of the level passed.
\<close>

datatype Repetition = REQUIRED | OPTIONAL | REPEATED

datatype LogicalType = NONE | LIST | MAP | MAP_KEY_VALUE | OTHER_LOGICAL_TYPE

datatype Node =
    PrimitiveNode string Repetition int
  | GroupNode string Repetition LogicalType bool "int \<Rightarrow> int" "Node list"

fun node_name :: "Node \<Rightarrow> string" where
  "node_name (PrimitiveNode name rep idx) = name"
| "node_name (GroupNode name rep lt is_struct top_level group_fields) = name"

fun repetition :: "Node \<Rightarrow> Repetition" where
  "repetition (PrimitiveNode name rep idx) = rep"
| "repetition (GroupNode name rep lt is_struct top_level group_fields) = rep"

text \<open>
  What the \<^verbatim>\<open>ParquetFileReader\<close> and its metadata give: the number of row groups and of
  columns, the reader and the value count of the chunk of a column in a row group, the
  descriptor and the Arrow type of a column, the index of the top-level field a column
  belongs to (\<^verbatim>\<open>GetColumnRoot\<close>), and the fields of the root group.
\<close>

record ParquetFile =
  num_row_groups :: nat
  num_columns :: int
  Column :: "nat \<Rightarrow> int \<Rightarrow> ColumnReader"
  num_values :: "nat \<Rightarrow> int \<Rightarrow> int"
  column_descr :: "int \<Rightarrow> ColumnDescriptor"
  column_field_type :: "int \<Rightarrow> ArrowType"
  GetColumnRoot :: "int \<Rightarrow> nat"
  root_fields :: "Node list"

text \<open>
  \<^verbatim>\<open>FileReader::Impl::GetColumn\<close>: a negative row group index selects the iterator over
  all row groups.
\<close>

definition GetColumn :: "ParquetFile \<Rightarrow> int \<Rightarrow> int \<Rightarrow> PrimitiveImpl" where
  "GetColumn file i row_group_index =
     PrimitiveImpl_new (map (\<lambda>j. Column file j i) [0 ..< num_row_groups file])
       (if row_group_index < 0 then AllRowGroupsIterator 0
        else SingleRowGroupIterator (nat row_group_index) False)
       (column_descr file i) (column_field_type file i)"

text \<open>
  \<^verbatim>\<open>FileReader::Impl::GetReaderForNode\<close>; \<open>None\<close> is the null pointer that stands for a
  subtree without a requested column.  The second function is the loop over the fields of
  a struct.  In a list the repeated group and the element are the first fields of their
  parents; a group without fields, or a primitive node in the place of the repeated group,
  is read out of bounds.
\<close>

fun key_value_names :: "Node list \<Rightarrow> bool" where
  "key_value_names (k # v # rest) = (node_name k = ''key'' \<and> node_name v = ''value'')"
| "key_value_names rest = False"

fun GetReaderForNode ::
    "Build \<Rightarrow> ParquetFile \<Rightarrow> int list \<Rightarrow> int \<Rightarrow> Node \<Rightarrow> int \<Rightarrow> int \<Rightarrow> Failure + Impl option"
  and GetReaderForNode_fields ::
    "Build \<Rightarrow> ParquetFile \<Rightarrow> int list \<Rightarrow> int \<Rightarrow> Node list \<Rightarrow> int \<Rightarrow> int \<Rightarrow> Failure + Impl list"
where
  "GetReaderForNode b file indices row_group_index (PrimitiveNode name rep column_index)
       parent_def_level parent_rep_level =
     (if column_index \<in> set indices
      then Inr (Some (ImplPrimitive (GetColumn file column_index row_group_index)))
      else Inr None)"
| "GetReaderForNode b file indices row_group_index
       (GroupNode name rep lt is_struct top_level group_fields)
       parent_def_level parent_rep_level =
     (let def_level = (if rep = REQUIRED then parent_def_level else parent_def_level + 1) in
      if is_struct then
        (case GetReaderForNode_fields b file indices row_group_index group_fields
                def_level parent_rep_level of
           Inl f \<Rightarrow> Inl f
         | Inr child_readers \<Rightarrow>
             if child_readers \<noteq> []
             then Inr (Some (ImplStruct child_readers def_level parent_rep_level
                               (top_level def_level)))
             else Inr None)
      else
        (case group_fields of
           [] \<Rightarrow> Inl (Crash OutOfBounds)
         | rep_group # others \<Rightarrow>
             (case rep_group of
                PrimitiveNode rname rrep ridx \<Rightarrow> Inl (Crash BadCast)
              | GroupNode rname rrep rlt ris_struct rtop_level rfields \<Rightarrow>
                  if b = Debug \<and> rrep \<noteq> REPEATED then Inl (Crash DCheckFailed)
                  else
                    (case
                       (if lt = LIST then
                          (case rfields of
                             [] \<Rightarrow> Inl (Crash OutOfBounds)
                           | element_node # rest \<Rightarrow>
                               GetReaderForNode b file indices row_group_index element_node
                                 (def_level + 1) (parent_rep_level + 1))
                        else if b = Debug \<and> lt \<noteq> MAP \<and> lt \<noteq> MAP_KEY_VALUE
                          then Inl (Crash DCheckFailed)
                        else if b = Debug \<and> \<not> key_value_names rfields
                          then Inl (Crash DCheckFailed)
                        else GetReaderForNode b file indices row_group_index rep_group
                               def_level (parent_rep_level + 1)) of
                       Inl f \<Rightarrow> Inl f
                     | Inr None \<Rightarrow> Inr None
                     | Inr (Some child_reader) \<Rightarrow>
                         Inr (Some (ImplList child_reader def_level parent_rep_level
                                      (top_level def_level) None None))))))"
| "GetReaderForNode_fields b file indices row_group_index [] def_level parent_rep_level = Inr []"
| "GetReaderForNode_fields b file indices row_group_index (node # nodes)
       def_level parent_rep_level =
     (case GetReaderForNode b file indices row_group_index node def_level parent_rep_level of
        Inl f \<Rightarrow> Inl f
      | Inr child_reader \<Rightarrow>
          (case GetReaderForNode_fields b file indices row_group_index nodes
                  def_level parent_rep_level of
             Inl f \<Rightarrow> Inl f
           | Inr child_readers \<Rightarrow>
               Inr ((case child_reader of None \<Rightarrow> [] | Some c \<Rightarrow> [c]) @ child_readers)))"

text \<open>
  The value of an \<^verbatim>\<open>int64_t\<close> that holds the low 64 bits of a number, read as two's
  complement: what an addition of two \<^verbatim>\<open>int64_t\<close> leaves when the sum does not fit.
\<close>

definition int64 :: "int \<Rightarrow> int" where
  "int64 x = sint (word_of_int x :: 64 word)"

text \<open>
  The batch size computed by \<^verbatim>\<open>ReadSchemaField\<close> for the field with index \<open>i\<close>: over all
  row groups when the row group index is negative, within one row group otherwise.  The
  counts are \<^verbatim>\<open>int64_t\<close> and so are \<^verbatim>\<open>column_batch_size\<close> and \<^verbatim>\<open>batch_size\<close>.
\<close>

definition column_batch_size :: "ParquetFile \<Rightarrow> int \<Rightarrow> int" where
  "column_batch_size file column_idx =
     fold (\<lambda>j column_batch_size. int64 (column_batch_size + int64 (num_values file j column_idx)))
       [0 ..< num_row_groups file] 0"

definition ReadSchemaField_batch_size :: "ParquetFile \<Rightarrow> int list \<Rightarrow> nat \<Rightarrow> int \<Rightarrow> int" where
  "ReadSchemaField_batch_size file indices i row_group_index =
     (if row_group_index < 0
      then fold (\<lambda>column_idx batch_size.
                   if GetColumnRoot file column_idx \<noteq> i then batch_size
                   else max batch_size (column_batch_size file column_idx))
             indices 0
      else fold (\<lambda>column_idx batch_size.
                   max batch_size (int64 (num_values file (nat row_group_index) column_idx)))
             indices 0)"

text \<open>\<^verbatim>\<open>static_cast<int>\<close> of an \<^verbatim>\<open>int64_t\<close>: the low 32 bits, read as two's complement.\<close>

definition static_cast_int :: "int \<Rightarrow> int" where
  "static_cast_int x = sint (word_of_int x :: 32 word)"

text \<open>
  \<^verbatim>\<open>FileReader::Impl::ReadSchemaField\<close> with its four arguments; \<open>ReadSchemaField_run\<close> also
  gives the assembler tree as the call to \<^verbatim>\<open>NextBatch\<close> leaves it.
\<close>

definition ReadSchemaField_run ::
  "Build \<Rightarrow> ParquetFile \<Rightarrow> nat \<Rightarrow> int list \<Rightarrow> int \<Rightarrow> (Failure + Array option) \<times> Impl option" where
  "ReadSchemaField_run b file i indices row_group_index =
     (if length (root_fields file) \<le> i then (Inl (Crash OutOfBounds), None)
      else
        (case GetReaderForNode b file indices row_group_index (root_fields file ! i) 0 0 of
           Inl f \<Rightarrow> (Inl f, None)
         | Inr None \<Rightarrow> (Inr None, None)
         | Inr (Some reader_impl) \<Rightarrow>
             (case NextBatch b
                     (static_cast_int (ReadSchemaField_batch_size file indices i row_group_index))
                     reader_impl of
                (r, reader_impl') \<Rightarrow> (r, Some reader_impl'))))"

definition ReadSchemaField ::
  "Build \<Rightarrow> ParquetFile \<Rightarrow> nat \<Rightarrow> int list \<Rightarrow> int \<Rightarrow> Failure + Array option" where
  "ReadSchemaField b file i indices row_group_index =
     fst (ReadSchemaField_run b file i indices row_group_index)"

section \<open>The parallel for-loop\<close>

text \<open>
  \<^verbatim>\<open>ParallelFor\<close> starts \<open>nthreads\<close> workers that run the same loop on shared variables:
  the atomic \<^verbatim>\<open>task_counter\<close>, the flag \<^verbatim>\<open>error_occurred\<close> and the status \<^verbatim>\<open>error\<close>
  (\<open>None\<close> is \<^verbatim>\<open>Status::OK()\<close>).  A worker is at one of these places of the loop:
  about to test the flag; past the test and about to \<^verbatim>\<open>fetch_add\<close> the counter; holding
  a task it is about to run; holding the failed status of its task and about to take the
  mutex and store it; or out of the loop.
\<close>

datatype Worker = AtLoopHead | AtClaim | Running nat | Storing Status | Finished

record ParallelState =
  task_counter :: nat
  error_occurred :: bool
  error :: "Status option"
  workers :: "Worker list"

text \<open>What a step of a worker does, for the record of a run.\<close>

datatype Event = Tested bool | Fetched nat | Ran nat | Stored Status

definition initial_state :: "nat \<Rightarrow> ParallelState" where
  "initial_state nthreads =
     \<lparr>task_counter = 0, error_occurred = False, error = None,
      workers = replicate nthreads AtLoopHead\<rparr>"

text \<open>
  One step of worker \<open>i\<close>: the test of \<^verbatim>\<open>while (!error_occurred)\<close>; the \<^verbatim>\<open>fetch_add\<close> and the
  test against \<open>num_tasks\<close>; the call \<^verbatim>\<open>func(task_id)\<close>; the store of the failed status
  under the mutex.  A worker that is out of the loop, or an index that names no worker,
  takes no step.
\<close>

definition worker_step ::
  "(nat \<Rightarrow> Status option) \<Rightarrow> nat \<Rightarrow> nat \<Rightarrow> ParallelState \<Rightarrow> (nat \<times> Event) list \<times> ParallelState" where
  "worker_step func num_tasks i s =
     (if length (workers s) \<le> i then ([], s)
      else
        (case workers s ! i of
           AtLoopHead \<Rightarrow>
             ([(i, Tested (error_occurred s))],
              s\<lparr>workers := (workers s)[i := (if error_occurred s then Finished else AtClaim)]\<rparr>)
         | AtClaim \<Rightarrow>
             ([(i, Fetched (task_counter s))],
              s\<lparr>task_counter := task_counter s + 1,
                workers := (workers s)[i := (if num_tasks \<le> task_counter s then Finished
                                             else Running (task_counter s))]\<rparr>)
         | Running task_id \<Rightarrow>
             ([(i, Ran task_id)],
              s\<lparr>workers := (workers s)[i := (case func task_id of
                                               None \<Rightarrow> AtLoopHead
                                             | Some st \<Rightarrow> Storing st)]\<rparr>)
         | Storing st \<Rightarrow>
             ([(i, Stored st)],
              s\<lparr>error_occurred := True, error := Some st,
                workers := (workers s)[i := Finished]\<rparr>)
         | Finished \<Rightarrow> ([], s)))"

text \<open>
  A run under a schedule, the list of the workers that take the steps in turn: the events
  in their order, and the state reached.
\<close>

fun run ::
  "(nat \<Rightarrow> Status option) \<Rightarrow> nat \<Rightarrow> nat list \<Rightarrow> ParallelState \<Rightarrow> (nat \<times> Event) list \<times> ParallelState" where
  "run func num_tasks [] s = ([], s)"
| "run func num_tasks (i # schedule) s =
     (case worker_step func num_tasks i s of
        (es, s') \<Rightarrow> (case run func num_tasks schedule s' of (es', s'') \<Rightarrow> (es @ es', s'')))"

definition all_finished :: "ParallelState \<Rightarrow> bool" where
  "all_finished s = list_all (\<lambda>w. w = Finished) (workers s)"

text \<open>
  \<^verbatim>\<open>ParallelFor\<close> under a schedule: once every worker has left its loop the joins return
  and the result is \<^verbatim>\<open>error\<close> if the flag is set and \<^verbatim>\<open>Status::OK()\<close> otherwise.  \<open>None\<close>:
  the schedule ends before every worker is out of its loop.
\<close>

definition ParallelFor ::
  "nat \<Rightarrow> nat \<Rightarrow> (nat \<Rightarrow> Status option) \<Rightarrow> nat list \<Rightarrow> Status option option" where
  "ParallelFor nthreads num_tasks func schedule =
     (case run func num_tasks schedule (initial_state nthreads) of
        (es, s) \<Rightarrow>
          if all_finished s then Some (if error_occurred s then error s else None) else None)"

definition ParallelFor_events ::
  "nat \<Rightarrow> nat \<Rightarrow> (nat \<Rightarrow> Status option) \<Rightarrow> nat list \<Rightarrow> (nat \<times> Event) list" where
  "ParallelFor_events nthreads num_tasks func schedule =
     fst (run func num_tasks schedule (initial_state nthreads))"

text \<open>The statuses stored, in the order of the stores, and the tasks fetched by a worker.\<close>

definition stored :: "(nat \<times> Event) list \<Rightarrow> Status list" where
  "stored es = List.map_filter (\<lambda>e. case snd e of Stored st \<Rightarrow> Some st | _ \<Rightarrow> None) es"

text \<open>
  The number of times worker \<open>i\<close> fetches a task number after the first store, that is,
  after the flag is set.
\<close>

fun fetches_after_store :: "nat \<Rightarrow> bool \<Rightarrow> (nat \<times> Event) list \<Rightarrow> nat" where
  "fetches_after_store i flag [] = 0"
| "fetches_after_store i flag (e # es) =
     (case snd e of
        Stored st \<Rightarrow> fetches_after_store i True es
      | Fetched t \<Rightarrow>
          (if flag \<and> fst e = i then 1 else 0) + fetches_after_store i flag es
      | _ \<Rightarrow> fetches_after_store i flag es)"

section \<open>Reading a table\<close>

text \<open>
  Modelled from the spec: \<^verbatim>\<open>ColumnIndicesToFieldIndices\<close> of \<^verbatim>\<open>schema-util.h\<close>, which is not
  part of \<^verbatim>\<open>reader.cc\<close>.  It computes the requested top-level field indices from the
  column indices via the schema, each field once, and rejects a column index outside
  \<open>[0, num_columns)\<close>.
\<close>

fun first_occurrences :: "nat list \<Rightarrow> nat list \<Rightarrow> nat list" where
  "first_occurrences seen [] = []"
| "first_occurrences seen (x # xs) =
     (if x \<in> set seen then first_occurrences seen xs
      else x # first_occurrences (x # seen) xs)"

definition ColumnIndicesToFieldIndices :: "ParquetFile \<Rightarrow> int list \<Rightarrow> nat list option" where
  "ColumnIndicesToFieldIndices file indices =
     (if list_ex (\<lambda>column_idx. column_idx < 0 \<or> num_columns file \<le> column_idx) indices
      then None
      else Some (first_occurrences [] (map (GetColumnRoot file) indices)))"

text \<open>
  The sequential loop of \<^verbatim>\<open>ReadTable\<close> and \<^verbatim>\<open>ReadRowGroup\<close> over the tasks: it returns at
  the first task that fails.
\<close>

fun read_columns_sequential ::
  "(nat \<Rightarrow> Failure + Array option) \<Rightarrow> nat list \<Rightarrow> Failure + Array option list" where
  "read_columns_sequential task [] = Inr []"
| "read_columns_sequential task (i # rest) =
     (case task i of
        Inl f \<Rightarrow> Inl f
      | Inr array \<Rightarrow>
          (case read_columns_sequential task rest of
             Inl f \<Rightarrow> Inl f
           | Inr columns \<Rightarrow> Inr (array # columns)))"

definition task_status :: "(nat \<Rightarrow> Failure + Array option) \<Rightarrow> nat \<Rightarrow> Status option" where
  "task_status task i = (case task i of Inl (StatusError st) \<Rightarrow> Some st | _ \<Rightarrow> None)"

definition crashed_tasks :: "(nat \<Rightarrow> Failure + Array option) \<Rightarrow> (nat \<times> Event) list \<Rightarrow> CrashKind list" where
  "crashed_tasks task es =
     List.map_filter
       (\<lambda>e. case snd e of
               Ran t \<Rightarrow> (case task t of Inl (Crash c) \<Rightarrow> Some c | _ \<Rightarrow> None)
             | _ \<Rightarrow> None) es"

definition ran_tasks :: "(nat \<times> Event) list \<Rightarrow> nat list" where
  "ran_tasks es = List.map_filter (\<lambda>e. case snd e of Ran t \<Rightarrow> Some t | _ \<Rightarrow> None) es"

text \<open>
  \<^verbatim>\<open>columns[i]\<close> after the workers have finished: what task \<open>i\<close> stored there if it ran
  and succeeded, and the null pointer the vector was filled with otherwise.
\<close>

definition column_of ::
  "(nat \<Rightarrow> Failure + Array option) \<Rightarrow> (nat \<times> Event) list \<Rightarrow> nat \<Rightarrow> Array option" where
  "column_of task es i =
     (if i \<in> set (ran_tasks es)
      then (case task i of Inr array \<Rightarrow> array | Inl f \<Rightarrow> None)
      else None)"

text \<open>
  The part that \<^verbatim>\<open>ReadTable\<close> and \<^verbatim>\<open>ReadRowGroup\<close> share: one task for every field index,
  run in order when \<open>nthreads\<close> is 1 and by \<^verbatim>\<open>ParallelFor\<close> otherwise.  A task that crashes
  takes the process with it.  \<open>None\<close>: the schedule ends before the workers have finished.
  A negative number of threads makes \<^verbatim>\<open>reserve\<close> throw.  With no thread, which is the
  case of no field or of \<open>num_threads = 0\<close>, \<^verbatim>\<open>ParallelFor\<close> starts no worker and no task
  runs: the columns stay null.
\<close>

definition read_columns ::
  "int \<Rightarrow> (nat \<Rightarrow> Failure + Array option) \<Rightarrow> nat \<Rightarrow> nat list
     \<Rightarrow> (Failure + Array option list) option" where
  "read_columns num_threads task num_fields schedule =
     (let nthreads = min num_threads (int num_fields) in
      if nthreads = 1 then Some (read_columns_sequential task [0 ..< num_fields])
      else if nthreads < 0 then Some (Inl (Crash UncaughtException))
      else
        (case ParallelFor (nat nthreads) num_fields (task_status task) schedule of
           None \<Rightarrow> None
         | Some r \<Rightarrow>
             (case crashed_tasks task
                     (ParallelFor_events (nat nthreads) num_fields (task_status task) schedule) of
                c # cs \<Rightarrow> Some (Inl (Crash c))
              | [] \<Rightarrow>
                  (case r of
                     Some st \<Rightarrow> Some (Inl (StatusError st))
                   | None \<Rightarrow>
                       Some (Inr (map (column_of task
                                         (ParallelFor_events (nat nthreads) num_fields
                                            (task_status task) schedule))
                                    [0 ..< num_fields]))))))"

text \<open>
  \<^verbatim>\<open>FileReader::Impl::ReadTable\<close> and \<^verbatim>\<open>FileReader::Impl::ReadRowGroup\<close> with a list of column
  indices.  \<open>GetSchema\<close> stands for \<^verbatim>\<open>FromParquetSchema\<close> on the file's schema, which is
  not part of \<^verbatim>\<open>reader.cc\<close>; a table is the schema with the arrays of its columns.
\<close>

definition ReadTable ::
  "Build \<Rightarrow> ParquetFile \<Rightarrow> (int list \<Rightarrow> Status + 'schema) \<Rightarrow> int \<Rightarrow> int list \<Rightarrow> nat list
     \<Rightarrow> (Failure + 'schema \<times> Array option list) option" where
  "ReadTable b file GetSchema num_threads indices schedule =
     (case GetSchema indices of
        Inl st \<Rightarrow> Some (Inl (StatusError st))
      | Inr schema \<Rightarrow>
          (case ColumnIndicesToFieldIndices file indices of
             None \<Rightarrow> Some (Inl (StatusError (Status Invalid ''Invalid column index'')))
           | Some field_indices \<Rightarrow>
               (case read_columns num_threads
                       (\<lambda>i. ReadSchemaField b file (field_indices ! i) indices (- 1))
                       (length field_indices) schedule of
                  None \<Rightarrow> None
                | Some (Inl f) \<Rightarrow> Some (Inl f)
                | Some (Inr columns) \<Rightarrow> Some (Inr (schema, columns)))))"

definition ReadRowGroup ::
  "Build \<Rightarrow> ParquetFile \<Rightarrow> (int list \<Rightarrow> Status + 'schema) \<Rightarrow> int \<Rightarrow> nat \<Rightarrow> int list \<Rightarrow> nat list
     \<Rightarrow> (Failure + 'schema \<times> Array option list) option" where
  "ReadRowGroup b file GetSchema num_threads row_group_index indices schedule =
     (case GetSchema indices of
        Inl st \<Rightarrow> Some (Inl (StatusError st))
      | Inr schema \<Rightarrow>
          (case ColumnIndicesToFieldIndices file indices of
             None \<Rightarrow> Some (Inl (StatusError (Status Invalid ''Invalid column index'')))
           | Some field_indices \<Rightarrow>
               (case read_columns num_threads
                       (\<lambda>i. ReadSchemaField b file (field_indices ! i) indices
                               (int row_group_index))
                       (length field_indices) schedule of
                  None \<Rightarrow> None
                | Some (Inl f) \<Rightarrow> Some (Inl f)
                | Some (Inr columns) \<Rightarrow> Some (Inr (schema, columns)))))"

subsection \<open>Invariants of the worker loop\<close>

text \<open>
  A worker that holds a task holds a task below \<open>num_tasks\<close>, and a worker that holds a
  failed status holds the status of such a task.
\<close>

definition worker_ok :: "(nat \<Rightarrow> Status option) \<Rightarrow> nat \<Rightarrow> Worker \<Rightarrow> bool" where
  "worker_ok func n w = (case w of Running t \<Rightarrow> t < n | Storing st \<Rightarrow> (\<exists>t<n. func t = Some st) | _ \<Rightarrow> True)"

text \<open>
  How many times worker \<open>i\<close> can still fetch a task number once the flag is set: once if it
  is past the test of the flag and before its \<^verbatim>\<open>fetch_add\<close>, and never otherwise.
\<close>

definition fetch_bound :: "ParallelState \<Rightarrow> nat \<Rightarrow> nat" where
  "fetch_bound s i =
     (if error_occurred s then (if i < length (workers s) \<and> workers s ! i = AtClaim then 1 else 0)
      else 1)"


section \<open>\<^verbatim>\<open>PrimitiveImpl::WrapIntoListArray\<close>\<close>

text \<open>
  An Arrow field, as far as \<^verbatim>\<open>WrapIntoListArray\<close> looks at it: whether it is nullable and
  the child fields of its type.
\<close>

datatype Field = Field bool "Field list"

text \<open>
  The walk downwards that collects \<^verbatim>\<open>nullable\<close>: the flag of the field, then of its only
  child, and so on; the number of steps down is \<^verbatim>\<open>list_depth\<close>.
\<close>

fun nullable_chain :: "Field \<Rightarrow> Status + bool list" where
  "nullable_chain (Field n []) = Inr [n]"
| "nullable_chain (Field n [c]) =
     (case nullable_chain c of Inl st \<Rightarrow> Inl st | Inr ns \<Rightarrow> Inr (n # ns))"
| "nullable_chain (Field n (c # c' # cs)) =
     Inl (Status NotImplemented ''Fields with more than one child are not supported.'')"

text \<open>\<^verbatim>\<open>empty_def_level\<close>, from the flags of the lists.\<close>

fun empty_def_levels :: "int \<Rightarrow> bool list \<Rightarrow> int list" where
  "empty_def_levels def_level [] = []"
| "empty_def_levels def_level (n # ns) =
     (let d = (if n then def_level + 1 else def_level) in d # empty_def_levels (d + 1) ns)"

text \<open>
  The builders of the lists, outermost first: the offsets appended, the validity bits
  appended and the null counts.
\<close>

record ListBuilders =
  offset_builders :: "int list list"
  valid_bits_builders :: "bool list list"
  null_counts :: "int list"

definition next_offset :: "nat \<Rightarrow> int \<Rightarrow> ListBuilders \<Rightarrow> nat \<Rightarrow> int" where
  "next_offset list_depth values_offset bs j =
     (if Suc j = list_depth then values_offset
      else int (length (offset_builders bs ! Suc j)))"

definition append_offset :: "nat \<Rightarrow> int \<Rightarrow> ListBuilders \<Rightarrow> ListBuilders" where
  "append_offset j v bs =
     bs\<lparr>offset_builders := (offset_builders bs)[j := offset_builders bs ! j @ [v]]\<rparr>"

definition append_valid :: "nat \<Rightarrow> bool \<Rightarrow> ListBuilders \<Rightarrow> ListBuilders" where
  "append_valid j v bs =
     bs\<lparr>valid_bits_builders := (valid_bits_builders bs)[j := valid_bits_builders bs ! j @ [v]]\<rparr>"

text \<open>
  The loop over \<open>j\<close> of \<^verbatim>\<open>WrapIntoListArray\<close> for one level entry, with its two
  \<^verbatim>\<open>break\<close>s; the list holds the values of \<open>j\<close> still to come.
\<close>

fun wrap_inner ::
  "nat \<Rightarrow> bool list \<Rightarrow> int list \<Rightarrow> int \<Rightarrow> int \<Rightarrow> nat list \<Rightarrow> ListBuilders \<Rightarrow> ListBuilders" where
  "wrap_inner list_depth nullable empty_def_level def_level values_offset [] bs = bs"
| "wrap_inner list_depth nullable empty_def_level def_level values_offset (j # js) bs =
     (let bs1 = append_offset j (next_offset list_depth values_offset bs j) bs in
      if empty_def_level ! j - 1 = def_level \<and> nullable ! j
      then (append_valid j False bs1)\<lparr>null_counts := (null_counts bs1)[j := null_counts bs1 ! j + 1]\<rparr>
      else
        (let bs2 = append_valid j True bs1 in
         if empty_def_level ! j = def_level then bs2
         else wrap_inner list_depth nullable empty_def_level def_level values_offset js bs2))"

text \<open>
  The loop over the level entries.  A negative repetition level indexes the builders
  out of bounds.
\<close>

fun wrap_levels ::
  "nat \<Rightarrow> bool list \<Rightarrow> int list \<Rightarrow> int \<Rightarrow> int \<Rightarrow> (int \<times> int) list \<Rightarrow> int \<Rightarrow> ListBuilders
     \<Rightarrow> Failure + int \<times> ListBuilders" where
  "wrap_levels list_depth nullable empty_def_level max_rep values_def_level [] values_offset bs =
     Inr (values_offset, bs)"
| "wrap_levels list_depth nullable empty_def_level max_rep values_def_level
       ((def_level, rep_level) # levels) values_offset bs =
     (if rep_level < max_rep \<and> rep_level < 0 then Inl (Crash OutOfBounds)
      else
        (let bs' = (if rep_level < max_rep
                    then wrap_inner list_depth nullable empty_def_level def_level values_offset
                           [nat rep_level ..< list_depth] bs
                    else bs)
         in wrap_levels list_depth nullable empty_def_level max_rep values_def_level levels
              (if values_def_level \<le> def_level then values_offset + 1 else values_offset) bs'))"

text \<open>The loop that adds the final offset to all lists.\<close>

fun final_offsets :: "nat \<Rightarrow> int \<Rightarrow> nat list \<Rightarrow> ListBuilders \<Rightarrow> ListBuilders" where
  "final_offsets list_depth values_offset [] bs = bs"
| "final_offsets list_depth values_offset (j # js) bs =
     final_offsets list_depth values_offset js
       (append_offset j (next_offset list_depth values_offset bs j) bs)"

text \<open>The loop that wraps \<^verbatim>\<open>output\<close> in the list arrays, innermost first.\<close>

fun wrap_output :: "ListBuilders \<Rightarrow> nat list \<Rightarrow> Array \<Rightarrow> Array" where
  "wrap_output bs [] output = output"
| "wrap_output bs (j # js) output =
     wrap_output bs js
       (ListArray (int (length (offset_builders bs ! j)) - 1) (offset_builders bs ! j) output
          (Some (valid_bits_builders bs ! j)) (null_counts bs ! j))"

text \<open>
  The body of \<^verbatim>\<open>WrapIntoListArray\<close> up to its last statement: the value of the local
  variable \<^verbatim>\<open>output\<close>, or \<open>None\<close> for a column without repetition, for which nothing is
  built.  \<open>schema_fields\<close> is what \<^verbatim>\<open>FromParquetSchema\<close> gives for the column.  The levels
  are read up to \<^verbatim>\<open>total_levels_read\<close>.
\<close>

definition WrapIntoListArray_output ::
  "Status + Field list \<Rightarrow> ColumnDescriptor \<Rightarrow> int list \<Rightarrow> int list \<Rightarrow> int \<Rightarrow> Array option
     \<Rightarrow> Failure + Array option" where
  "WrapIntoListArray_output schema_fields d def_levels rep_levels total_levels_read array =
     (case schema_fields of
        Inl st \<Rightarrow> Inl (StatusError st)
      | Inr [] \<Rightarrow> Inl (Crash OutOfBounds)
      | Inr (current_field # others) \<Rightarrow>
          if max_repetition_level d \<le> 0 then Inr None
          else
            (case nullable_chain current_field of
               Inl st \<Rightarrow> Inl (StatusError st)
             | Inr nullable \<Rightarrow>
                 (let list_depth = length nullable - 1;
                      values_def_level =
                        (if last nullable then max_definition_level d - 1
                         else max_definition_level d);
                      empty_def_level = empty_def_levels 0 (take list_depth nullable)
                  in
                  if int (min (length def_levels) (length rep_levels)) < total_levels_read
                  then Inl (Crash OutOfBounds)
                  else
                    (case wrap_levels list_depth nullable empty_def_level
                            (max_repetition_level d) values_def_level
                            (take (nat total_levels_read) (zip def_levels rep_levels)) 0
                            \<lparr>offset_builders = replicate list_depth [],
                             valid_bits_builders = replicate list_depth [],
                             null_counts = replicate list_depth 0\<rparr> of
                       Inl f \<Rightarrow> Inl f
                     | Inr (values_offset, bs) \<Rightarrow>
                         (let bs' = final_offsets list_depth values_offset [0 ..< list_depth] bs in
                          case array of
                            None \<Rightarrow> (if list_depth = 0 then Inr None else Inl (Crash NullPointer))
                          | Some a \<Rightarrow> Inr (Some (wrap_output bs' (rev [0 ..< list_depth]) a)))))))"

text \<open>
  \<^verbatim>\<open>WrapIntoListArray\<close>: the status and the array the out-parameter points to when the
  function returns.  The assignment \<^verbatim>\<open>*array = output\<close> is commented out.
\<close>

definition WrapIntoListArray ::
  "Status + Field list \<Rightarrow> ColumnDescriptor \<Rightarrow> int list \<Rightarrow> int list \<Rightarrow> int \<Rightarrow> Array option
     \<Rightarrow> (Failure + unit) \<times> Array option" where
  "WrapIntoListArray schema_fields d def_levels rep_levels total_levels_read array =
     (case WrapIntoListArray_output schema_fields d def_levels rep_levels total_levels_read array of
        Inl f \<Rightarrow> (Inl f, array)
      | Inr output \<Rightarrow> (Inr (), array))"

text \<open>The array found under a given number of list arrays, if the array is nested so deep.\<close>

fun unwrap_lists :: "nat \<Rightarrow> Array \<Rightarrow> Array option" where
  "unwrap_lists 0 a = Some a"
| "unwrap_lists (Suc k) a =
     (case unwrap_lists k a of
        Some (ListArray n offs c v nc) \<Rightarrow> Some c
      | _ \<Rightarrow> None)"

section \<open>What a subtree has left to read\<close>

text \<open>
  The level entries a leaf has not read yet: those left in the chunk it is attached to and
  those of the chunks its iterator has yet to give.
\<close>

fun iterator_levels :: "ColumnReader list \<Rightarrow> FileColumnIterator \<Rightarrow> nat" where
  "iterator_levels cs (AllRowGroupsIterator j) =
     sum_list (map (\<lambda>r. length (entries r)) (drop j cs))"
| "iterator_levels cs (SingleRowGroupIterator g done) =
     (if done then 0 else length (entries (cs ! g)))"

definition leaf_levels :: "PrimitiveImpl \<Rightarrow> nat" where
  "leaf_levels p =
     (case column_reader p of None \<Rightarrow> 0 | Some r \<Rightarrow> length (entries r))
       + iterator_levels (chunks p) (input p)"

text \<open>
  The level entries themselves, in the order in which the leaf reads them, and the slots
  the array of a leaf gets for a sequence of level entries: with a maximum definition
  level of 0 one slot for the value of every entry, otherwise the slots of the spaced
  read.
\<close>

fun iterator_entries :: "ColumnReader list \<Rightarrow> FileColumnIterator \<Rightarrow> (int \<times> int \<times> pvalue) list" where
  "iterator_entries cs (AllRowGroupsIterator j) = concat (map entries (drop j cs))"
| "iterator_entries cs (SingleRowGroupIterator g done) = (if done then [] else entries (cs ! g))"

definition leaf_entries :: "PrimitiveImpl \<Rightarrow> (int \<times> int \<times> pvalue) list" where
  "leaf_entries p =
     (case column_reader p of None \<Rightarrow> [] | Some r \<Rightarrow> entries r)
       @ iterator_entries (chunks p) (input p)"

definition leaf_slots :: "ColumnDescriptor \<Rightarrow> (int \<times> int \<times> pvalue) list \<Rightarrow> pvalue option list" where
  "leaf_slots d es =
     (if max_definition_level d = 0
      then map (\<lambda>e. Some (snd (snd e))) (filter (\<lambda>e. fst e = max_definition_level d) es)
      else List.map_filter (spaced_slot d) es)"

text \<open>The leaves of an assembler tree, and the columns of the leaves of a schema node.\<close>

fun tree_leaves :: "Impl \<Rightarrow> PrimitiveImpl list" where
  "tree_leaves (ImplPrimitive p) = [p]"
| "tree_leaves (ImplList c ld lr ms dbuf rbuf) = tree_leaves c"
| "tree_leaves (ImplStruct cs sd sr tp) = concat (map tree_leaves cs)"

fun node_columns :: "Node \<Rightarrow> int list" where
  "node_columns (PrimitiveNode name rep column_index) = [column_index]"
| "node_columns (GroupNode name rep lt is_struct top_level group_fields) =
     concat (map node_columns group_fields)"




section \<open>Example inputs\<close>

text \<open>A required top-level column, and a chunk of it with two values.\<close>

definition example_descr :: ColumnDescriptor where
  "example_descr =
     \<lparr>max_definition_level = 0, max_repetition_level = 0, is_optional = False,
      repeated_parent = False, top_parent_def_level = 0\<rparr>"

definition example_chunk :: ColumnReader where
  "example_chunk =
     \<lparr>physical_type = Int32Type, entries = [(0, 0, PInt32 7), (0, 0, PInt32 8)]\<rparr>"

text \<open>
  A leaf over a file with one row group that holds this chunk, with a given Arrow type,
  and a leaf over a file without row groups.
\<close>

definition example_leaf :: "ArrowType \<Rightarrow> PrimitiveImpl" where
  "example_leaf ty = PrimitiveImpl_new [example_chunk] (AllRowGroupsIterator 0) example_descr ty"

definition exhausted_leaf :: PrimitiveImpl where
  "exhausted_leaf = PrimitiveImpl_new [] (AllRowGroupsIterator 0) example_descr INT32"

text \<open>
  A leaf over a file whose only row group holds no value of the column, and a leaf over
  a chunk with the \<^verbatim>\<open>Int96\<close> of 2440589 days and 1 nanosecond, read as a timestamp in
  nanoseconds.
\<close>

definition empty_chunk :: ColumnReader where
  "empty_chunk = \<lparr>physical_type = Int32Type, entries = []\<rparr>"

definition empty_chunk_leaf :: PrimitiveImpl where
  "empty_chunk_leaf = PrimitiveImpl_new [empty_chunk] (AllRowGroupsIterator 0) example_descr INT32"

definition timestamp_chunk :: ColumnReader where
  "timestamp_chunk =
     \<lparr>physical_type = Int96Type,
      entries = [(0, 0, PInt96 \<lparr>value0 = 1, value1 = 0, value2 = 2440589\<rparr>)]\<rparr>"

definition timestamp_leaf :: PrimitiveImpl where
  "timestamp_leaf =
     PrimitiveImpl_new [timestamp_chunk] (AllRowGroupsIterator 0) example_descr (TIMESTAMP NANO)"

text \<open>A leaf that has read its last batch, with the levels of that batch in its buffers.\<close>

definition leaf_with_levels :: "int list \<Rightarrow> int list \<Rightarrow> PrimitiveImpl" where
  "leaf_with_levels def_levels rep_levels =
     \<lparr>chunks = [], input = AllRowGroupsIterator 0, descr = example_descr,
      column_reader = None, field_type = INT32,
      def_levels_buffer = def_levels, rep_levels_buffer = rep_levels\<rparr>"

text \<open>
  The element column of an optional list of optional elements, and the levels of the rows
  \<open>[1, null]\<close>, \<open>null\<close>, \<open>[]\<close>, \<open>[2]\<close>.
\<close>

definition example_list_descr :: ColumnDescriptor where
  "example_list_descr =
     \<lparr>max_definition_level = 3, max_repetition_level = 1, is_optional = True,
      repeated_parent = True, top_parent_def_level = 2\<rparr>"

definition example_def_levels :: "int list" where
  "example_def_levels = [3, 2, 0, 1, 3]"

definition example_rep_levels :: "int list" where
  "example_rep_levels = [0, 1, 0, 0, 0]"



text \<open>
  A file with one row group and one required column, and two schema mappers for it: one
  that succeeds and one that rejects the schema.
\<close>

definition example_file :: ParquetFile where
  "example_file =
     \<lparr>num_row_groups = 1, num_columns = 1,
      Column = (\<lambda>j i. example_chunk), num_values = (\<lambda>j i. 2),
      column_descr = (\<lambda>i. example_descr), column_field_type = (\<lambda>i. INT32),
      GetColumnRoot = (\<lambda>i. 0), root_fields = [PrimitiveNode ''a'' REQUIRED 0]\<rparr>"

definition schema_ok :: "int list \<Rightarrow> Status + unit" where
  "schema_ok indices = Inr ()"

definition schema_unsupported :: "int list \<Rightarrow> Status + unit" where
  "schema_unsupported indices = Inl (Status NotImplemented ''Unsupported logical type'')"

text \<open>Tasks that all fail, the first with a status of its own.\<close>

definition failing_task :: "nat \<Rightarrow> Status option" where
  "failing_task task_id =
     Some (Status IOError (if task_id = 0 then ''first task'' else ''another task''))"

text \<open>
  The member \<open>a\<close> of an optional struct \<open>s\<close> with one optional member, and a chunk with the
  rows \<open>null\<close>, \<open>{a: null}\<close>, \<open>{a: 5}\<close>.
\<close>

definition example_member_descr :: ColumnDescriptor where
  "example_member_descr =
     \<lparr>max_definition_level = 2, max_repetition_level = 0, is_optional = True,
      repeated_parent = False, top_parent_def_level = 0\<rparr>"

definition example_member_chunk :: ColumnReader where
  "example_member_chunk =
     \<lparr>physical_type = Int32Type,
      entries = [(0, 0, PInt32 0), (1, 0, PInt32 0), (2, 0, PInt32 5)]\<rparr>"

definition example_member_leaf :: PrimitiveImpl where
  "example_member_leaf =
     PrimitiveImpl_new [example_member_chunk] (AllRowGroupsIterator 0) example_member_descr INT32"

text \<open>
  A file with two row groups and one top-level field, a required struct \<open>s\<close> of two
  required lists \<open>a\<close> and \<open>b\<close> of required elements.  Each row group holds one row: \<open>a\<close>
  has three elements and \<open>b\<close> one in the first, \<open>a\<close> has one and \<open>b\<close> three in the second.
\<close>

definition three_element_chunk :: ColumnReader where
  "three_element_chunk =
     \<lparr>physical_type = Int32Type,
      entries = [(1, 0, PInt32 1), (1, 1, PInt32 2), (1, 1, PInt32 3)]\<rparr>"

definition one_element_chunk :: ColumnReader where
  "one_element_chunk = \<lparr>physical_type = Int32Type, entries = [(1, 0, PInt32 4)]\<rparr>"

definition required_element_descr :: ColumnDescriptor where
  "required_element_descr =
     \<lparr>max_definition_level = 1, max_repetition_level = 1, is_optional = False,
      repeated_parent = True, top_parent_def_level = 0\<rparr>"

definition required_list_node :: "string \<Rightarrow> int \<Rightarrow> Node" where
  "required_list_node name column_index =
     GroupNode name REQUIRED LIST False (\<lambda>def_level. 0)
       [GroupNode ''list'' REPEATED NONE False (\<lambda>def_level. 0)
          [PrimitiveNode ''element'' REQUIRED column_index]]"

definition two_lists_file :: ParquetFile where
  "two_lists_file =
     \<lparr>num_row_groups = 2, num_columns = 2,
      Column = (\<lambda>j i. if (j = 0) = (i = 0) then three_element_chunk else one_element_chunk),
      num_values = (\<lambda>j i. if (j = 0) = (i = 0) then 3 else 1),
      column_descr = (\<lambda>i. required_element_descr), column_field_type = (\<lambda>i. INT32),
      GetColumnRoot = (\<lambda>i. 0),
      root_fields = [GroupNode ''s'' REQUIRED NONE True (\<lambda>def_level. 0)
                       [required_list_node ''a'' 0, required_list_node ''b'' 1]]\<rparr>"






section \<open>INT96 timestamps are converted to nanoseconds since the Unix epoch\<close>

lemma word_of_int_sint_64: "word_of_int (sint w) = w" for w :: "64 word"
  by (metis scast_eq scast_id)

lemma int96_low_64:
  "(ucast (int96_bits ts) :: 64 word) = push_bit 32 (ucast (value1 ts)) OR ucast (value0 ts)"
  unfolding int96_bits_def
  by (rule bit_word_eqI) (auto simp add: bit_simps dest: bit_imp_le_length)

lemma int96_high_32: "(ucast (drop_bit 64 (int96_bits ts)) :: 32 word) = value2 ts"
  unfolding int96_bits_def
  by (rule bit_word_eqI) (auto simp add: bit_simps dest: bit_imp_le_length)

lemma impala_timestamp_word:
  "impala_timestamp_to_nanoseconds ts =
     word_of_int ((uint (value2 ts) - 2440588) * 86400000000000
                  + sint (push_bit 32 (ucast (value1 ts)) OR ucast (value0 ts) :: 64 word))"
  unfolding impala_timestamp_to_nanoseconds_def kJulianToUnixEpochDays_def
    kNanosecondsInADay_def Let_def
  unfolding wi_hom_syms word_of_int_sint_64 ucast_eq
  by simp

lemma convert_values_int96:
  "convert_values (TIMESTAMP NANO) (map PInt96 tss) =
     Some (map (\<lambda>ts. AInt64 (impala_timestamp_to_nanoseconds ts)) tss)"
  by (induction tss) (simp_all add: convert_value_def as_int96_def)

lemma convert_slots_timestamp:
  "convert_slots (TIMESTAMP NANO) slots = Some out \<Longrightarrow>
     \<exists>tss. slots = map (map_option PInt96) tss
          \<and> out = map (map_option (\<lambda>ts. AInt64 (impala_timestamp_to_nanoseconds ts))) tss"
proof (induction slots arbitrary: out)
  case Nil
  then show ?case by simp
next
  case (Cons s slots)
  show ?case
  proof (cases s)
    case None
    with Cons.prems obtain out' where o: "convert_slots (TIMESTAMP NANO) slots = Some out'"
      and out: "out = None # out'" by (auto split: option.splits)
    from Cons.IH[OF o] obtain tss where "slots = map (map_option PInt96) tss"
      and "out' = map (map_option (\<lambda>ts. AInt64 (impala_timestamp_to_nanoseconds ts))) tss"
      by blast
    with None out show ?thesis by (intro exI[of _ "None # tss"]) simp
  next
    case (Some v)
    with Cons.prems obtain a out' where cv: "convert_value (TIMESTAMP NANO) v = Some a"
      and o: "convert_slots (TIMESTAMP NANO) slots = Some out'"
      and out: "out = Some a # out'" by (auto split: option.splits)
    from cv obtain ts where v: "v = PInt96 ts"
      and a: "a = AInt64 (impala_timestamp_to_nanoseconds ts)"
      by (auto simp: convert_value_def as_int96_def split: pvalue.splits)
    from Cons.IH[OF o] obtain tss where "slots = map (map_option PInt96) tss"
      and "out' = map (map_option (\<lambda>ts. AInt64 (impala_timestamp_to_nanoseconds ts))) tss"
      by blast
    with Some out v a show ?thesis by (intro exI[of _ "Some ts # tss"]) simp
  qed
qed


section \<open>The leaf reader: what it returns and what it leaves\<close>

lemma TypedReadBatch_not_none: "fst (TypedReadBatch ty pt n p) \<noteq> Inr None"
  by (simp add: TypedReadBatch_def split: sum.splits prod.splits)

lemma ReadByteArrayBatch_not_none: "fst (ReadByteArrayBatch ty n p) \<noteq> Inr None"
  by (simp add: ReadByteArrayBatch_def split: sum.splits prod.splits)

lemma ReadFLBABatch_not_none: "fst (ReadFLBABatch ty n p) \<noteq> Inr None"
  by (simp add: ReadFLBABatch_def split: sum.splits prod.splits)

lemma PrimitiveImpl_NextBatch_none:
  "fst (PrimitiveImpl_NextBatch n p) = Inr None \<longleftrightarrow> column_reader p = None"
  by (cases "column_reader p")
     (simp_all add: PrimitiveImpl_NextBatch_def TypedReadBatch_not_none
        ReadByteArrayBatch_not_none ReadFLBABatch_not_none
        split: ArrowType.splits TimeUnit.splits)

lemma ListImpl_NextBatch_none:
  "fst (NextBatch b n (ImplList c ld lr ms dbuf rbuf)) = Inr None \<longleftrightarrow> fst (NextBatch b n c) = Inr None"
  by (auto split: prod.splits sum.splits option.splits)

lemma children_none:
  "fst (StructImpl_NextBatch_children b n cs) = Inr None \<longleftrightarrow>
     (\<exists>k<length cs. fst (NextBatch b n (cs ! k)) = Inr None \<and>
         (\<forall>j<k. \<exists>a. fst (NextBatch b n (cs ! j)) = Inr (Some a)))"
proof (induction cs)
  case Nil
  then show ?case by simp
next
  case (Cons c cs)
  show ?case
  proof (cases "fst (NextBatch b n c)")
    case (Inl f)
    have l: "fst (StructImpl_NextBatch_children b n (c # cs)) \<noteq> Inr None"
      using Inl by (auto split: prod.splits sum.splits option.splits)
    have r: "\<not> (\<exists>k<length (c # cs). fst (NextBatch b n ((c # cs) ! k)) = Inr None \<and>
         (\<forall>j<k. \<exists>a. fst (NextBatch b n ((c # cs) ! j)) = Inr (Some a)))"
    proof
      assume "\<exists>k<length (c # cs). fst (NextBatch b n ((c # cs) ! k)) = Inr None \<and>
         (\<forall>j<k. \<exists>a. fst (NextBatch b n ((c # cs) ! j)) = Inr (Some a))"
      then obtain k where k: "fst (NextBatch b n ((c # cs) ! k)) = Inr None"
          "\<forall>j<k. \<exists>a. fst (NextBatch b n ((c # cs) ! j)) = Inr (Some a)" by blast
      show False
      proof (cases k)
        case 0
        with k(1) Inl show False by simp
      next
        case (Suc k')
        with k(2) have "\<exists>a. fst (NextBatch b n ((c # cs) ! 0)) = Inr (Some a)" by blast
        with Inl show False by simp
      qed
    qed
    from l r show ?thesis by blast
  next
    case (Inr r)
    show ?thesis
    proof (cases r)
      case None
      with Inr show ?thesis by (auto split: prod.splits sum.splits option.splits intro!: exI[of _ 0])
    next
      case (Some a)
      have "fst (StructImpl_NextBatch_children b n (c # cs)) = Inr None \<longleftrightarrow> fst (StructImpl_NextBatch_children b n cs) = Inr None"
        using Inr Some by (auto split: prod.splits sum.splits option.splits)
      also have "\<dots> \<longleftrightarrow> (\<exists>k<length cs. fst (NextBatch b n (cs ! k)) = Inr None \<and>
         (\<forall>j<k. \<exists>a. fst (NextBatch b n (cs ! j)) = Inr (Some a)))" by (rule Cons.IH)
      also have "\<dots> \<longleftrightarrow> (\<exists>k<length (c # cs). fst (NextBatch b n ((c # cs) ! k)) = Inr None \<and>
         (\<forall>j<k. \<exists>a. fst (NextBatch b n ((c # cs) ! j)) = Inr (Some a)))" (is "?L \<longleftrightarrow> ?R")
      proof
        assume ?L
        then obtain k where k: "k < length cs" "fst (NextBatch b n (cs ! k)) = Inr None"
          "\<forall>j<k. \<exists>a. fst (NextBatch b n (cs ! j)) = Inr (Some a)" by blast
        have "\<forall>j<Suc k. \<exists>a. fst (NextBatch b n ((c # cs) ! j)) = Inr (Some a)"
          using k(3) Inr Some by (auto simp: nth_Cons split: nat.splits)
        with k(1,2) show ?R by (intro exI[of _ "Suc k"]) auto
      next
        assume ?R
        then obtain k where k: "k < length (c # cs)" "fst (NextBatch b n ((c # cs) ! k)) = Inr None"
          "\<forall>j<k. \<exists>a. fst (NextBatch b n ((c # cs) ! j)) = Inr (Some a)" by blast
        from k(2) Inr Some obtain k' where k': "k = Suc k'" by (cases k) auto
        have "\<forall>j<k'. \<exists>a. fst (NextBatch b n (cs ! j)) = Inr (Some a)"
          using k(3) k' by (metis Suc_less_eq nth_Cons_Suc)
        with k k' show ?L by (intro exI[of _ k']) auto
      qed
      finally show ?thesis .
    qed
  qed
qed

lemma StructImpl_NextBatch_none:
  "fst (NextBatch b n (ImplStruct cs sd sr tp)) = Inr None \<longleftrightarrow>
     fst (StructImpl_NextBatch_children b n cs) = Inr None"
  by (auto split: prod.splits sum.splits option.splits list.splits)

lemma NextRowGroup_inv: "leaf_inv (NextRowGroup p)"
  by (cases "input p") (auto simp: leaf_inv_def NextRowGroup_def split: if_splits)

lemma PrimitiveImpl_new_inv: "leaf_inv (PrimitiveImpl_new cs it d ty)"
  by (simp add: PrimitiveImpl_new_def NextRowGroup_inv)

lemma after_read_inv: "leaf_inv (after_read p r)"
  by (simp add: after_read_def NextRowGroup_inv) (simp add: leaf_inv_def)

lemma read_loop_inv:
  "leaf_inv p \<Longrightarrow> read_loop kind v acc p = Inr (acc', p') \<Longrightarrow> leaf_inv p'"
proof (induction kind v acc p rule: read_loop.induct)
  case (1 kind v acc p)
  show ?case
  proof (cases "column_reader p")
    case None
    with "1.prems" show ?thesis by (simp add: read_loop.simps)
  next
    case (Some reader)
    show ?thesis
    proof (cases "v \<le> 0")
      case True
      with Some "1.prems" show ?thesis by (simp add: read_loop.simps)
    next
      case False
      from "1.prems"(2) Some False obtain v1 acc1 r1 where
        st: "read_step kind (descr p) v acc reader = Inr (v1, acc1, r1)"
        and rec: "read_loop kind v1 acc1 (after_read p r1) = Inr (acc', p')"
        by (subst (asm) read_loop.simps) (auto split: sum.splits)
      show ?thesis
        using "1.IH"[OF Some False st refl refl after_read_inv rec] .
    qed
  qed
qed

lemma finish_levels_inv: "leaf_inv (finish_levels acc p) = leaf_inv p"
  by (simp add: finish_levels_def leaf_inv_def)

lemma TypedReadBatch_inv: "leaf_inv p \<Longrightarrow> leaf_inv (snd (TypedReadBatch ty pt n p))"
  by (auto simp: TypedReadBatch_def finish_levels_inv split: sum.splits dest: read_loop_inv)

lemma ReadByteArrayBatch_inv: "leaf_inv p \<Longrightarrow> leaf_inv (snd (ReadByteArrayBatch ty n p))"
  by (auto simp: ReadByteArrayBatch_def finish_levels_inv split: sum.splits dest: read_loop_inv)

lemma ReadFLBABatch_inv: "leaf_inv p \<Longrightarrow> leaf_inv (snd (ReadFLBABatch ty n p))"
  by (auto simp: ReadFLBABatch_def finish_levels_inv split: sum.splits dest: read_loop_inv)

lemma PrimitiveImpl_NextBatch_inv:
  "leaf_inv p \<Longrightarrow> leaf_inv (snd (PrimitiveImpl_NextBatch n p))"
  by (cases "column_reader p")
     (simp_all add: PrimitiveImpl_NextBatch_def TypedReadBatch_inv ReadByteArrayBatch_inv
        ReadFLBABatch_inv split: ArrowType.splits TimeUnit.splits)

lemma example_leaf_simps:
  "example_leaf ty =
     \<lparr>chunks = [example_chunk], input = AllRowGroupsIterator 1, descr = example_descr,
      column_reader = Some example_chunk, field_type = ty,
      def_levels_buffer = [], rep_levels_buffer = []\<rparr>"
  by (simp add: example_leaf_def PrimitiveImpl_new_def NextRowGroup_def)

lemma exhausted_leaf_simps:
  "exhausted_leaf =
     \<lparr>chunks = [], input = AllRowGroupsIterator 0, descr = example_descr,
      column_reader = None, field_type = INT32,
      def_levels_buffer = [], rep_levels_buffer = []\<rparr>"
  by (simp add: exhausted_leaf_def PrimitiveImpl_new_def NextRowGroup_def)

lemma example_leaf_INT32_NextBatch:
  "fst (PrimitiveImpl_NextBatch 3 (example_leaf INT32)) =
     Inr (Some (PrimitiveArray INT32 2 [Some (AInt32 7), Some (AInt32 8)] None 0))"
  by (simp add: example_leaf_simps PrimitiveImpl_NextBatch_def TypedReadBatch_def
      read_loop.simps read_step_def ReadNonNullableBatch_def ReadBatch_def example_chunk_def
      example_descr_def convert_value_def as_int32_def empty_acc_def after_read_def HasNext_def
      NextRowGroup_def finish_levels_def)

lemma Next_levels:
  "Next cs it = (r, it') \<Longrightarrow>
     (case r of None \<Rightarrow> 0 | Some r \<Rightarrow> length (entries r)) + iterator_levels cs it'
       = iterator_levels cs it"
  by (cases it) (auto simp: Cons_nth_drop_Suc[symmetric] split: if_splits)

lemma convert_slots_length: "convert_slots ty s = Some out \<Longrightarrow> length out = length s"
  by (induction ty s arbitrary: out rule: convert_slots.induct) (auto split: option.splits)

lemma ReadNullableBatch_values:
  assumes "ReadNullableBatch ty d v acc r = Inr (v', acc', r')"
  shows "v - int (min (nat v) (length (entries r))) \<le> v'"
proof -
  let ?b = "take (min (nat v) (length (entries r))) (entries r)"
  from assms obtain out where c: "convert_slots ty (List.map_filter (spaced_slot d) ?b) = Some out"
    and v': "v' = v - int (length out)"
    by (auto simp: ReadNullableBatch_def ReadBatchSpaced_def Let_def split: option.splits if_splits)
  have "length (List.map_filter (spaced_slot d) ?b) \<le> length ?b"
    unfolding map_filter_def length_map by (rule length_filter_le)
  hence "length (List.map_filter (spaced_slot d) ?b) \<le> min (nat v) (length (entries r))"
    by (simp only: length_take min.idem min.commute)
  with convert_slots_length[OF c] v' show ?thesis by linarith
qed

lemma read_step_values:
  "read_step kind d v acc r = Inr (v', acc', r') \<Longrightarrow>
     v - int (min (nat v) (length (entries r))) \<le> v'"
  by (cases kind)
     (auto simp: read_step_def ReadNonNullableBatch_def
       ReadBinaryBatch_step_def ReadBatch_def Let_def
       dest: ReadNullableBatch_values
       split: if_splits option.splits prod.splits)

lemma NextRowGroup_levels:
  "leaf_levels (NextRowGroup p) = iterator_levels (chunks p) (input p)"
  using Next_levels[of "chunks p" "input p"]
  by (cases "Next (chunks p) (input p)") (auto simp: leaf_levels_def NextRowGroup_def)

lemma leaf_inv_levels: "leaf_inv p \<Longrightarrow> column_reader p = None \<Longrightarrow> leaf_levels p = 0"
  by (cases "input p") (auto simp: leaf_inv_def leaf_levels_def split: if_splits)

lemma read_loop_drains:
  "leaf_inv p \<Longrightarrow> int (leaf_levels p) \<le> v \<Longrightarrow> read_loop kind v acc p = Inr (acc', p') \<Longrightarrow>
     leaf_levels p' = 0"
proof (induction kind v acc p rule: read_loop.induct)
  case (1 kind v acc p)
  show ?case
  proof (cases "column_reader p")
    case None
    with "1.prems" leaf_inv_levels[of p] show ?thesis by (simp add: read_loop.simps)
  next
    case (Some reader)
    show ?thesis
    proof (cases "v \<le> 0")
      case True
      with Some "1.prems" show ?thesis by (simp add: read_loop.simps)
    next
      case False
      from "1.prems"(3) Some False obtain v1 acc1 r1 where
        st: "read_step kind (descr p) v acc reader = Inr (v1, acc1, r1)"
        and rec: "read_loop kind v1 acc1 (after_read p r1) = Inr (acc', p')"
        by (subst (asm) read_loop.simps) (auto split: sum.splits)
      from "1.prems"(2) Some have le: "int (length (entries reader)) \<le> v"
        by (simp add: leaf_levels_def)
      with read_step_entries[OF st] have e: "entries r1 = []" by simp
      from read_step_values[OF st] le have v1: "v - int (length (entries reader)) \<le> v1" by simp
      from e have ar: "after_read p r1 = NextRowGroup (p\<lparr>column_reader := Some r1\<rparr>)"
        by (simp add: after_read_def HasNext_def)
      have "leaf_levels (after_read p r1) = iterator_levels (chunks p) (input p)"
        unfolding ar by (simp add: NextRowGroup_levels)
      with "1.prems"(2) Some v1 have "int (leaf_levels (after_read p r1)) \<le> v1"
        by (simp add: leaf_levels_def)
      from "1.IH"[OF Some False st refl refl after_read_inv this rec] show ?thesis .
    qed
  qed
qed

lemma finish_levels_levels: "leaf_levels (finish_levels acc p) = leaf_levels p"
  by (simp add: finish_levels_def leaf_levels_def)

lemma TypedReadBatch_drains:
  "leaf_inv p \<Longrightarrow> int (leaf_levels p) \<le> n \<Longrightarrow> TypedReadBatch ty pt n p = (Inr r, p') \<Longrightarrow>
     leaf_levels p' = 0"
  by (auto simp: TypedReadBatch_def finish_levels_levels split: sum.splits dest: read_loop_drains)

lemma ReadByteArrayBatch_drains:
  "leaf_inv p \<Longrightarrow> int (leaf_levels p) \<le> n \<Longrightarrow> ReadByteArrayBatch ty n p = (Inr r, p') \<Longrightarrow>
     leaf_levels p' = 0"
  by (auto simp: ReadByteArrayBatch_def finish_levels_levels split: sum.splits dest: read_loop_drains)

lemma ReadFLBABatch_drains:
  "leaf_inv p \<Longrightarrow> int (leaf_levels p) \<le> n \<Longrightarrow> ReadFLBABatch ty n p = (Inr r, p') \<Longrightarrow>
     leaf_levels p' = 0"
  by (auto simp: ReadFLBABatch_def finish_levels_levels split: sum.splits dest: read_loop_drains)

lemma PrimitiveImpl_NextBatch_drains:
  assumes "leaf_inv p" and "field_type p \<noteq> NA" and "int (leaf_levels p) \<le> n"
    and "PrimitiveImpl_NextBatch n p = (Inr r, p')"
  shows "leaf_levels p' = 0"
proof (cases "column_reader p")
  case None
  with assms leaf_inv_levels[of p] show ?thesis by (simp add: PrimitiveImpl_NextBatch_def)
next
  case (Some reader)
  with assms(2,4) have
    "(\<exists>ty pt. TypedReadBatch ty pt n p = (Inr r, p')) \<or>
     (\<exists>ty. ReadByteArrayBatch ty n p = (Inr r, p')) \<or>
     (\<exists>ty. ReadFLBABatch ty n p = (Inr r, p'))"
    by (simp add: PrimitiveImpl_NextBatch_def split: ArrowType.splits TimeUnit.splits) blast+
  with assms(1,3) show ?thesis
    by (blast dest: TypedReadBatch_drains ReadByteArrayBatch_drains ReadFLBABatch_drains)
qed

lemma read_loop_detaches:
  "leaf_inv p \<Longrightarrow> int (leaf_levels p) < v \<Longrightarrow> read_loop kind v acc p = Inr (acc', p') \<Longrightarrow>
     column_reader p' = None"
proof (induction kind v acc p rule: read_loop.induct)
  case (1 kind v acc p)
  show ?case
  proof (cases "column_reader p")
    case None
    with "1.prems" show ?thesis by (simp add: read_loop.simps)
  next
    case (Some reader)
    from "1.prems"(2) have False: "\<not> v \<le> 0" by simp
    from "1.prems"(3) Some False obtain v1 acc1 r1 where
      st: "read_step kind (descr p) v acc reader = Inr (v1, acc1, r1)"
      and rec: "read_loop kind v1 acc1 (after_read p r1) = Inr (acc', p')"
      by (subst (asm) read_loop.simps) (auto split: sum.splits)
    from "1.prems"(2) Some have le: "int (length (entries reader)) < v"
      by (simp add: leaf_levels_def)
    with read_step_entries[OF st] have e: "entries r1 = []" by simp
    from read_step_values[OF st] le have v1: "v - int (length (entries reader)) \<le> v1" by simp
    from e have ar: "after_read p r1 = NextRowGroup (p\<lparr>column_reader := Some r1\<rparr>)"
      by (simp add: after_read_def HasNext_def)
    have "leaf_levels (after_read p r1) = iterator_levels (chunks p) (input p)"
      unfolding ar by (simp add: NextRowGroup_levels)
    with "1.prems"(2) Some v1 have "int (leaf_levels (after_read p r1)) < v1"
      by (simp add: leaf_levels_def)
    from "1.IH"[OF Some False st refl refl after_read_inv this rec] show ?thesis .
  qed
qed

lemma finish_levels_column_reader: "column_reader (finish_levels acc p) = column_reader p"
  by (simp add: finish_levels_def)

lemma TypedReadBatch_detaches:
  "leaf_inv p \<Longrightarrow> int (leaf_levels p) < n \<Longrightarrow> TypedReadBatch ty pt n p = (Inr r, p') \<Longrightarrow>
     column_reader p' = None"
  by (auto simp: TypedReadBatch_def finish_levels_column_reader split: sum.splits
      dest: read_loop_detaches)

lemma ReadByteArrayBatch_detaches:
  "leaf_inv p \<Longrightarrow> int (leaf_levels p) < n \<Longrightarrow> ReadByteArrayBatch ty n p = (Inr r, p') \<Longrightarrow>
     column_reader p' = None"
  by (auto simp: ReadByteArrayBatch_def finish_levels_column_reader split: sum.splits
      dest: read_loop_detaches)

lemma ReadFLBABatch_detaches:
  "leaf_inv p \<Longrightarrow> int (leaf_levels p) < n \<Longrightarrow> ReadFLBABatch ty n p = (Inr r, p') \<Longrightarrow>
     column_reader p' = None"
  by (auto simp: ReadFLBABatch_def finish_levels_column_reader split: sum.splits
      dest: read_loop_detaches)

lemma PrimitiveImpl_NextBatch_detaches:
  assumes "leaf_inv p" and "field_type p \<noteq> NA" and "int (leaf_levels p) < n"
    and "PrimitiveImpl_NextBatch n p = (Inr r, p')"
  shows "column_reader p' = None"
proof (cases "column_reader p")
  case None
  with assms show ?thesis by (simp add: PrimitiveImpl_NextBatch_def)
next
  case (Some reader)
  with assms(2,4) have
    "(\<exists>ty pt. TypedReadBatch ty pt n p = (Inr r, p')) \<or>
     (\<exists>ty. ReadByteArrayBatch ty n p = (Inr r, p')) \<or>
     (\<exists>ty. ReadFLBABatch ty n p = (Inr r, p'))"
    by (simp add: PrimitiveImpl_NextBatch_def split: ArrowType.splits TimeUnit.splits) blast+
  with assms(1,3) show ?thesis
    by (blast dest: TypedReadBatch_detaches ReadByteArrayBatch_detaches ReadFLBABatch_detaches)
qed

lemma Next_entries:
  "Next cs it = (r, it') \<Longrightarrow>
     (case r of None \<Rightarrow> [] | Some r \<Rightarrow> entries r) @ iterator_entries cs it'
       = iterator_entries cs it"
  by (cases it) (auto simp: Cons_nth_drop_Suc[symmetric] split: if_splits)

lemma NextRowGroup_entries:
  "leaf_entries (NextRowGroup p) = iterator_entries (chunks p) (input p)"
  using Next_entries[of "chunks p" "input p"]
  by (cases "Next (chunks p) (input p)") (auto simp: leaf_entries_def NextRowGroup_def)

lemma leaf_levels_entries: "leaf_levels p = length (leaf_entries p)"
  by (cases "input p")
     (auto simp: leaf_levels_def leaf_entries_def length_concat comp_def split: option.splits)

lemma NextRowGroup_descr: "descr (NextRowGroup p) = descr p"
  by (simp add: NextRowGroup_def split: prod.splits)

lemma after_read_descr: "descr (after_read p r) = descr p"
  by (simp add: after_read_def NextRowGroup_descr)

lemma convert_slots_append:
  "convert_slots ty (xs @ ys) =
     (case convert_slots ty xs of None \<Rightarrow> None
      | Some as \<Rightarrow> (case convert_slots ty ys of None \<Rightarrow> None | Some bs \<Rightarrow> Some (as @ bs)))"
  by (induction ty xs rule: convert_slots.induct) (auto split: option.splits)

lemma convert_slots_values:
  "convert_slots ty (map Some vs) = map_option (map Some) (convert_values ty vs)"
  by (induction vs) (auto split: option.splits)

lemma map_filter_append: "List.map_filter f (xs @ ys) = List.map_filter f xs @ List.map_filter f ys"
  by (simp add: map_filter_def)

lemma leaf_slots_append: "leaf_slots d (xs @ ys) = leaf_slots d xs @ leaf_slots d ys"
  by (simp add: leaf_slots_def map_filter_append)


lemma leaf_inv_entries: "leaf_inv p \<Longrightarrow> column_reader p = None \<Longrightarrow> leaf_entries p = []"
  using leaf_inv_levels[of p] by (simp add: leaf_levels_entries)

lemma read_step_typed_data:
  assumes "read_step (Typed ty pt) d v acc r = Inr (v1, acc1, r1)"
  shows "\<exists>out. convert_slots ty (leaf_slots d (take (min (nat v) (length (entries r))) (entries r)))
                 = Some out
             \<and> acc_data acc1 = acc_data acc @ out
             \<and> acc_null_count acc1 = acc_null_count acc + int (length (filter (\<lambda>s. s = None) out))"
proof (cases "max_definition_level d = 0")
  case True
  with assms obtain out where
    c: "convert_values ty (map (\<lambda>e. snd (snd e))
          (filter (\<lambda>e. fst e = max_definition_level d)
             (take (min (nat v) (length (entries r))) (entries r)))) = Some out"
    and a: "acc1 = acc\<lparr>acc_data := acc_data acc @ map Some out\<rparr>"
    by (auto simp: read_step_def ReadNonNullableBatch_def ReadBatch_def Let_def
        split: if_splits option.splits)
  have "leaf_slots d (take (min (nat v) (length (entries r))) (entries r))
          = map Some (map (\<lambda>e. snd (snd e))
              (filter (\<lambda>e. fst e = max_definition_level d)
                 (take (min (nat v) (length (entries r))) (entries r))))"
    using True by (simp add: leaf_slots_def)
  with c have "convert_slots ty (leaf_slots d (take (min (nat v) (length (entries r))) (entries r)))
                 = Some (map Some out)"
    by (simp only: convert_slots_values option.map)
  with a show ?thesis by (intro exI[of _ "map Some out"]) (simp add: filter_empty_conv)
next
  case False
  with assms obtain out where
    c: "convert_slots ty (List.map_filter (spaced_slot d)
          (take (min (nat v) (length (entries r))) (entries r))) = Some out"
    and a: "acc_data acc1 = acc_data acc @ out"
    and n: "acc_null_count acc1 = acc_null_count acc + int (length (filter (\<lambda>s. s = None) out))"
    by (auto simp: read_step_def ReadNullableBatch_def ReadBatchSpaced_def Let_def
        split: if_splits option.splits)
  with False show ?thesis by (intro exI[of _ out]) (simp add: leaf_slots_def)
qed

lemma read_loop_typed_data:
  "leaf_inv p \<Longrightarrow> int (leaf_levels p) \<le> v \<Longrightarrow>
   read_loop (Typed ty pt) v acc p = Inr (acc', p') \<Longrightarrow>
     \<exists>out. convert_slots ty (leaf_slots (descr p) (leaf_entries p)) = Some out
         \<and> acc_data acc' = acc_data acc @ out
         \<and> acc_null_count acc' = acc_null_count acc + int (length (filter (\<lambda>s. s = None) out))"
proof (induction "Typed ty pt" v acc p rule: read_loop.induct)
  case (1 v acc p)
  show ?case
  proof (cases "column_reader p")
    case None
    with "1.prems" leaf_inv_entries[of p] show ?thesis
      by (simp add: read_loop.simps leaf_slots_def map_filter_def)
  next
    case (Some reader)
    show ?thesis
    proof (cases "v \<le> 0")
      case True
      with "1.prems"(2) have "length (leaf_entries p) = 0" unfolding leaf_levels_entries by linarith
      hence "leaf_entries p = []" by simp
      with True Some "1.prems" show ?thesis
        by (simp add: read_loop.simps leaf_slots_def map_filter_def)
    next
      case False
      from "1.prems"(3) Some False obtain v1 acc1 r1 where
        st: "read_step (Typed ty pt) (descr p) v acc reader = Inr (v1, acc1, r1)"
        and rec: "read_loop (Typed ty pt) v1 acc1 (after_read p r1) = Inr (acc', p')"
        by (subst (asm) read_loop.simps) (auto split: sum.splits)
      from "1.prems"(2) Some have le: "int (length (entries reader)) \<le> v"
        by (simp add: leaf_levels_def)
      hence tk: "take (min (nat v) (length (entries reader))) (entries reader) = entries reader"
        by simp
      from read_step_entries[OF st] le have e: "entries r1 = []" by simp
      from read_step_values[OF st] le have v1: "v - int (length (entries reader)) \<le> v1" by simp
      from e have ar: "after_read p r1 = NextRowGroup (p\<lparr>column_reader := Some r1\<rparr>)"
        by (simp add: after_read_def HasNext_def)
      have ae: "leaf_entries (after_read p r1) = iterator_entries (chunks p) (input p)"
        unfolding ar by (simp add: NextRowGroup_entries)
      have "leaf_levels (after_read p r1) = iterator_levels (chunks p) (input p)"
        unfolding ar by (simp add: NextRowGroup_levels)
      with "1.prems"(2) Some v1 have lv: "int (leaf_levels (after_read p r1)) \<le> v1"
        by (simp add: leaf_levels_def)
      from "1.hyps"[OF Some False st refl refl after_read_inv lv rec] obtain out2 where
        c2: "convert_slots ty (leaf_slots (descr p) (iterator_entries (chunks p) (input p)))
               = Some out2"
        and d2: "acc_data acc' = acc_data acc1 @ out2"
        and n2: "acc_null_count acc'
                   = acc_null_count acc1 + int (length (filter (\<lambda>s. s = None) out2))"
        by (auto simp: after_read_descr ae)
      from read_step_typed_data[OF st] tk obtain out1 where
        c1: "convert_slots ty (leaf_slots (descr p) (entries reader)) = Some out1"
        and d1: "acc_data acc1 = acc_data acc @ out1"
        and n1: "acc_null_count acc1
                   = acc_null_count acc + int (length (filter (\<lambda>s. s = None) out1))"
        by auto
      have le: "leaf_entries p = entries reader @ iterator_entries (chunks p) (input p)"
        using Some by (simp add: leaf_entries_def)
      from c1 c2 have "convert_slots ty (leaf_slots (descr p) (leaf_entries p)) = Some (out1 @ out2)"
        unfolding le by (simp add: leaf_slots_append convert_slots_append)
      with d1 d2 n1 n2 show ?thesis by (intro exI[of _ "out1 @ out2"]) simp
    qed
  qed
qed


section \<open>The merged definition levels of a struct\<close>

lemma cons_ok_Inr: "cons_ok x r = Inr ys \<longleftrightarrow> (\<exists>xs. r = Inr xs \<and> ys = x # xs)"
  by (auto simp: cons_ok_def split: sum.splits)

lemma memset_int16_minus_one: "memset_int16 (- 1) = - 1"
  by (simp add: memset_int16_def Let_def)

lemma StructImpl_def_merge_Inr:
  "StructImpl_def_merge b sd rs cs = Inr m \<Longrightarrow>
     length rs \<le> length cs \<and> length m = length rs \<and>
     (\<forall>i<length rs. m ! i = max (rs ! i) (min (cs ! i) sd))"
proof (induction b sd rs cs arbitrary: m rule: StructImpl_def_merge.induct)
  case (1 b sd cs)
  then show ?case by simp
next
  case (2 b sd r rs)
  then show ?case by simp
next
  case (3 b sd r rs c cs)
  from "3.prems" obtain m' where m': "StructImpl_def_merge b sd rs cs = Inr m'"
    and m: "m = max r (min c sd) # m'"
    and nd: "\<not> (b = Debug \<and> \<not> (r = - 1 \<or> ((sd \<le> r) = (sd \<le> c))))"
    by (auto simp: cons_ok_Inr split: if_splits)
  from "3.IH"[OF nd m'] m show ?case
    by (auto simp: nth_Cons split: nat.splits)
qed

lemma StructImpl_def_fold_Inr:
  "StructImpl_def_fold b sd res streams = Inr m \<Longrightarrow>
     length m = length res \<and> (\<forall>s\<in>set streams. length res \<le> length s) \<and>
     (\<forall>i<length res. m ! i = Max (insert (res ! i) ((\<lambda>s. min (s ! i) sd) ` set streams)))"
proof (induction streams arbitrary: res m)
  case Nil
  then show ?case by simp
next
  case (Cons s streams)
  from Cons.prems obtain res' where r': "StructImpl_def_child b sd res s = Inr res'"
    and f: "StructImpl_def_fold b sd res' streams = Inr m"
    by (auto split: sum.splits)
  from r' have mr: "StructImpl_def_merge b sd res s = Inr res'"
    by (auto simp: StructImpl_def_child_def split: if_splits)
  note a = StructImpl_def_merge_Inr[OF mr]
  note ih = Cons.IH[OF f]
  have "m ! i = Max (insert (res ! i) ((\<lambda>s. min (s ! i) sd) ` set (s # streams)))"
    if i: "i < length res" for i
  proof -
    have "m ! i = Max (insert (res' ! i) ((\<lambda>s. min (s ! i) sd) ` set streams))"
      using ih a i by simp
    also have "res' ! i = max (res ! i) (min (s ! i) sd)" using a i by simp
    also have "Max (insert (max (res ! i) (min (s ! i) sd)) ((\<lambda>s. min (s ! i) sd) ` set streams))
        = Max (insert (res ! i) (insert (min (s ! i) sd) ((\<lambda>s. min (s ! i) sd) ` set streams)))"
      by (cases "set streams = {}") (simp_all add: max.assoc)
    finally show ?thesis by simp
  qed
  with a ih show ?case by auto
qed

lemma StructImpl_merge_def_levels_Inr:
  assumes "StructImpl_merge_def_levels b sd streams = Inr merged" and "streams \<noteq> []"
  shows "length merged = length (hd streams)"
    and "\<forall>s\<in>set streams. length merged \<le> length s"
    and "\<forall>i<length merged. merged ! i = Max (insert (- 1) ((\<lambda>s. min (s ! i) sd) ` set streams))"
proof -
  from assms obtain first rest where s: "streams = first # rest" by (cases streams) auto
  with assms(1) have f: "StructImpl_def_fold b sd (replicate (length first) (- 1)) streams = Inr merged"
    by (simp add: StructImpl_merge_def_levels_def memset_int16_minus_one)
  from StructImpl_def_fold_Inr[OF f] s
  show "length merged = length (hd streams)"
    and "\<forall>s\<in>set streams. length merged \<le> length s"
    and "\<forall>i<length merged. merged ! i = Max (insert (- 1) ((\<lambda>s. min (s ! i) sd) ` set streams))"
    by simp_all
qed

lemma GetDefLevels_fixed:
  "GetDefLevels b t = (Inr s, t1) \<Longrightarrow> GetDefLevels b t1 = (Inr s, t1)"
  "StructImpl_GetDefLevels_loop b sd res cs = (Inr m, cs1) \<Longrightarrow>
     StructImpl_GetDefLevels_loop b sd res cs1 = (Inr m, cs1)"
proof (induction b t and b sd res cs arbitrary: s t1 and m cs1
        rule: GetDefLevels_StructImpl_GetDefLevels_loop.induct)
  case (1 b p)
  then show ?case by auto
next
  case (2 b c ld lr ms dbuf rbuf)
  show ?case
  proof (cases dbuf)
    case None
    with "2.prems" obtain cd c' cr c'' where
      "t1 = ImplList c'' ld lr ms (Some s) rbuf"
      by (auto split: prod.splits sum.splits)
    then show ?thesis by simp
  next
    case (Some l)
    with "2.prems" show ?thesis by auto
  qed
next
  case (3 b sd sr tp)
  then show ?case by auto
next
  case (4 b c cs sd sr tp)
  from "4.prems" obtain s0 c' cs1 where g: "GetDefLevels b c = (Inr s0, c')"
    and l: "StructImpl_GetDefLevels_loop b sd (replicate (length s0) (memset_int16 (- 1))) (c' # cs)
              = (Inr s, cs1)"
    and t1: "t1 = ImplStruct cs1 sd sr tp"
    by (auto split: prod.splits sum.splits)
  from "4.IH"(1)[OF g] have g': "GetDefLevels b c' = (Inr s0, c')" .
  from l g' obtain rest where cs1: "cs1 = c' # rest"
    by (auto split: prod.splits sum.splits)
  from "4.IH"(2)[OF g[symmetric] refl l]
  have "StructImpl_GetDefLevels_loop b sd (replicate (length s0) (memset_int16 (- 1))) cs1
          = (Inr s, cs1)" .
  with g' cs1 t1 show ?case by simp
next
  case (5 b sd res)
  then show ?case by auto
next
  case (6 b sd res c cs)
  from "6.prems" obtain s0 c' res' rest where g: "GetDefLevels b c = (Inr s0, c')"
    and r: "StructImpl_def_child b sd res s0 = Inr res'"
    and l: "StructImpl_GetDefLevels_loop b sd res' cs = (Inr m, rest)"
    and cs1: "cs1 = c' # rest"
    by (auto split: prod.splits sum.splits)
  from "6.IH"(1)[OF g] have g': "GetDefLevels b c' = (Inr s0, c')" .
  from "6.IH"(2)[OF g[symmetric] refl r l]
  have "StructImpl_GetDefLevels_loop b sd res' rest = (Inr m, rest)" .
  with g' r cs1 show ?case by simp
qed

lemma StructImpl_GetDefLevels_loop_streams:
  "StructImpl_GetDefLevels_loop b sd res cs = (Inr m, cs1) \<Longrightarrow>
     \<exists>streams. list_all2 (\<lambda>c s. fst (GetDefLevels b c) = Inr s) cs streams \<and>
               StructImpl_def_fold b sd res streams = Inr m"
proof (induction cs arbitrary: res m cs1)
  case Nil
  then show ?case by simp
next
  case (Cons c cs)
  from Cons.prems obtain s0 c' res' rest where g: "GetDefLevels b c = (Inr s0, c')"
    and r: "StructImpl_def_child b sd res s0 = Inr res'"
    and l: "StructImpl_GetDefLevels_loop b sd res' cs = (Inr m, rest)"
    by (auto split: prod.splits sum.splits)
  from Cons.IH[OF l] obtain streams where
    s: "list_all2 (\<lambda>c s. fst (GetDefLevels b c) = Inr s) cs streams"
    and f: "StructImpl_def_fold b sd res' streams = Inr m" by blast
  from g r s f show ?case by (intro exI[of _ "s0 # streams"]) simp
qed

lemma StructImpl_GetDefLevels_streams:
  assumes "GetDefLevels b (ImplStruct cs sd sr tp) = (Inr merged, t')"
  shows "\<exists>streams. list_all2 (\<lambda>c s. fst (GetDefLevels b c) = Inr s) cs streams \<and>
                 StructImpl_merge_def_levels b sd streams = Inr merged"
proof (cases cs)
  case Nil
  with assms show ?thesis by (simp add: StructImpl_merge_def_levels_def)
next
  case (Cons c rest)
  with assms obtain s0 c' cs1 where g: "GetDefLevels b c = (Inr s0, c')"
    and l: "StructImpl_GetDefLevels_loop b sd (replicate (length s0) (memset_int16 (- 1)))
              (c' # rest) = (Inr merged, cs1)"
    by (auto split: prod.splits sum.splits)
  from GetDefLevels_fixed(1)[OF g] have g': "GetDefLevels b c' = (Inr s0, c')" .
  from StructImpl_GetDefLevels_loop_streams[OF l] obtain streams where
    s: "list_all2 (\<lambda>c s. fst (GetDefLevels b c) = Inr s) (c' # rest) streams"
    and f: "StructImpl_def_fold b sd (replicate (length s0) (memset_int16 (- 1))) streams
              = Inr merged" by blast
  from s g' obtain srest where st: "streams = s0 # srest"
    and sr: "list_all2 (\<lambda>c s. fst (GetDefLevels b c) = Inr s) rest srest"
    by (auto simp: list_all2_Cons1)
  from g sr st Cons have "list_all2 (\<lambda>c s. fst (GetDefLevels b c) = Inr s) cs streams"
    by simp
  moreover from f st have "StructImpl_merge_def_levels b sd streams = Inr merged"
    by (simp add: StructImpl_merge_def_levels_def)
  ultimately show ?thesis by blast
qed

text \<open>
  C4.  When \<^verbatim>\<open>StructImpl::GetDefLevels\<close> returns, the merged stream has the length of the
  first child's stream, no child's stream is shorter, and every position holds the
  maximum, over the \<^verbatim>\<open>-1\<close> the buffer starts with and all the children, of the child's
  definition level at that position capped at the struct's definition level.  The
  streams are those the children's \<^verbatim>\<open>GetDefLevels\<close> return.
\<close>

theorem StructImpl_GetDefLevels_max_min:
  assumes "GetDefLevels b (ImplStruct cs sd sr tp) = (Inr merged, t')"
  shows "\<exists>streams.
           list_all2 (\<lambda>c s. fst (GetDefLevels b c) = Inr s) cs streams
         \<and> StructImpl_merge_def_levels b sd streams = Inr merged
         \<and> (cs \<noteq> [] \<longrightarrow> length merged = length (hd streams))
         \<and> (\<forall>s\<in>set streams. length merged \<le> length s)
         \<and> (\<forall>i<length merged.
                merged ! i = Max (insert (- 1) ((\<lambda>s. min (s ! i) sd) ` set streams)))"
proof -
  from StructImpl_GetDefLevels_streams[OF assms] obtain streams where
    s: "list_all2 (\<lambda>c s. fst (GetDefLevels b c) = Inr s) cs streams"
    and m: "StructImpl_merge_def_levels b sd streams = Inr merged" by blast
  show ?thesis
  proof (cases "cs = []")
    case True
    with s m show ?thesis by (auto simp: StructImpl_merge_def_levels_def)
  next
    case False
    with s have ne: "streams \<noteq> []" by auto
    from StructImpl_merge_def_levels_Inr[OF m ne] s m show ?thesis by blast
  qed
qed

theorem StructImpl_GetDefLevels_max_min_witness:
  "GetDefLevels Debug
     (ImplStruct [ImplPrimitive (leaf_with_levels [0, 1, 3] []),
                  ImplPrimitive (leaf_with_levels [1, 0, 2] [])] 2 0 0)
     = (Inr [1, 1, 2],
        ImplStruct [ImplPrimitive (leaf_with_levels [0, 1, 3] []),
                    ImplPrimitive (leaf_with_levels [1, 0, 2] [])] 2 0 0)
   \<and> [1, 1, 2] ! 0 = Max (insert (- 1) ((\<lambda>s. min (s ! 0) 2) ` set [[0, 1, 3], [1, 0, 2 :: int]]))
   \<and> [1, 1, 2] ! 1 = Max (insert (- 1) ((\<lambda>s. min (s ! 1) 2) ` set [[0, 1, 3], [1, 0, 2 :: int]]))
   \<and> [1, 1, 2] ! 2 = Max (insert (- 1) ((\<lambda>s. min (s ! 2) 2) ` set [[0, 1, 3], [1, 0, 2 :: int]]))"
proof -
  let ?t = "ImplStruct [ImplPrimitive (leaf_with_levels [0, 1, 3] []),
                        ImplPrimitive (leaf_with_levels [1, 0, 2] [])] 2 0 0"
  have e: "GetDefLevels Debug ?t = (Inr [1, 1, 2], ?t)"
    by (simp add: leaf_with_levels_def memset_int16_def StructImpl_def_child_def cons_ok_def)
  from StructImpl_GetDefLevels_max_min[OF e] obtain streams where
    s: "list_all2 (\<lambda>c s. fst (GetDefLevels Debug c) = Inr s)
          [ImplPrimitive (leaf_with_levels [0, 1, 3] []),
           ImplPrimitive (leaf_with_levels [1, 0, 2] [])] streams"
    and m: "\<forall>i<length [1, 1, 2 :: int].
              [1, 1, 2] ! i = Max (insert (- 1) ((\<lambda>s. min (s ! i) 2) ` set streams))"
    by blast
  from s have "streams = [[0, 1, 3], [1, 0, 2]]"
    by (auto simp: list_all2_Cons1 leaf_with_levels_def)
  with m have "\<forall>i<3. [1, 1, 2 :: int] ! i
                 = Max (insert (- 1) ((\<lambda>s. min (s ! i) 2) ` set [[0, 1, 3], [1, 0, 2 :: int]]))"
    by simp
  then have "[1, 1, 2 :: int] ! 0 = Max (insert (- 1) ((\<lambda>s. min (s ! 0) 2) ` set [[0, 1, 3], [1, 0, 2 :: int]]))"
    and "[1, 1, 2 :: int] ! 1 = Max (insert (- 1) ((\<lambda>s. min (s ! 1) 2) ` set [[0, 1, 3], [1, 0, 2 :: int]]))"
    and "[1, 1, 2 :: int] ! 2 = Max (insert (- 1) ((\<lambda>s. min (s ! 2) 2) ` set [[0, 1, 3], [1, 0, 2 :: int]]))"
    by simp_all
  with e show ?thesis by blast
qed

section \<open>\<^verbatim>\<open>WrapIntoListArray\<close> leaves the array alone\<close>

lemma wrap_output_unwrap: "unwrap_lists (length js) (wrap_output bs js a) = Some a"
  by (induction js arbitrary: a) simp_all

lemma WrapIntoListArray_snd: "snd (WrapIntoListArray sf d dl rl total_read array) = array"
  by (simp add: WrapIntoListArray_def split: sum.splits)

lemma WrapIntoListArray_builds:
  assumes "fst (WrapIntoListArray sf d dl rl total_read (Some a)) = Inr ()"
    and "0 < max_repetition_level d"
  shows "\<exists>current others nullable output.
           sf = Inr (current # others) \<and> nullable_chain current = Inr nullable \<and>
           WrapIntoListArray_output sf d dl rl total_read (Some a) = Inr (Some output) \<and>
           unwrap_lists (length nullable - 1) output = Some a"
proof -
  from assms(1) obtain out where o: "WrapIntoListArray_output sf d dl rl total_read (Some a) = Inr out"
    by (auto simp: WrapIntoListArray_def split: sum.splits)
  from o assms(2) obtain current others where sf: "sf = Inr (current # others)"
    by (auto simp: WrapIntoListArray_output_def split: sum.splits list.splits)
  from o assms(2) sf obtain nullable where n: "nullable_chain current = Inr nullable"
    by (auto simp: WrapIntoListArray_output_def split: sum.splits if_splits)
  from o assms(2) sf n obtain bs where
    "out = Some (wrap_output bs (rev [0 ..< length nullable - 1]) a)"
    by (auto simp: WrapIntoListArray_output_def Let_def split: sum.splits if_splits prod.splits)
  then obtain wrapped where out: "out = Some wrapped"
    and u: "unwrap_lists (length nullable - 1) wrapped = Some a"
    using wrap_output_unwrap[of "rev [0 ..< length nullable - 1]" bs a] by simp
  from sf n o out u show ?thesis by blast
qed

text \<open>
  C9.  \<^verbatim>\<open>WrapIntoListArray\<close> never assigns to its out-parameter, so the array it points to is the
  same after every call.  For a column with a positive maximum repetition level a
  successful call has built \<^verbatim>\<open>output\<close>, the array wrapped in one list array for every level
  of nesting, from the definition and repetition levels, and dropped it.
\<close>

theorem WrapIntoListArray_array_unchanged:
  "snd (WrapIntoListArray sf d dl rl total_read array) = array
   \<and> (fst (WrapIntoListArray sf d dl rl total_read (Some a)) = Inr () \<and> 0 < max_repetition_level d
        \<longrightarrow> (\<exists>current others nullable output.
               sf = Inr (current # others) \<and> nullable_chain current = Inr nullable \<and>
               WrapIntoListArray_output sf d dl rl total_read (Some a) = Inr (Some output) \<and>
               unwrap_lists (length nullable - 1) output = Some a))"
  using WrapIntoListArray_snd WrapIntoListArray_builds by blast

lemma example_wrap_output:
  "WrapIntoListArray_output (Inr [Field True [Field True []]]) example_list_descr
       example_def_levels example_rep_levels 5 (Some (NullArray 3))
     = Inr (Some (ListArray 4 [0, 2, 2, 2, 3] (NullArray 3) (Some [True, False, True, True]) 1))"
  by (simp add: WrapIntoListArray_output_def example_list_descr_def example_def_levels_def
      example_rep_levels_def Let_def next_offset_def append_offset_def append_valid_def
      upt_rec[of 0] numeral_nat)

theorem WrapIntoListArray_array_unchanged_witness:
  "WrapIntoListArray (Inr [Field True [Field True []]]) example_list_descr
       example_def_levels example_rep_levels 5 (Some (NullArray 3))
     = (Inr (), Some (NullArray 3))
   \<and> WrapIntoListArray_output (Inr [Field True [Field True []]]) example_list_descr
       example_def_levels example_rep_levels 5 (Some (NullArray 3))
     = Inr (Some (ListArray 4 [0, 2, 2, 2, 3] (NullArray 3) (Some [True, False, True, True]) 1))
   \<and> unwrap_lists 1 (ListArray 4 [0, 2, 2, 2, 3] (NullArray 3) (Some [True, False, True, True]) 1)
     = Some (NullArray 3)"
proof -
  let ?call = "WrapIntoListArray (Inr [Field True [Field True []]]) example_list_descr
       example_def_levels example_rep_levels 5 (Some (NullArray 3))"
  have f: "fst ?call = Inr ()"
    by (simp add: WrapIntoListArray_def example_wrap_output)
  have r: "0 < max_repetition_level example_list_descr" by (simp add: example_list_descr_def)
  from WrapIntoListArray_array_unchanged[of "Inr [Field True [Field True []]]" example_list_descr
      example_def_levels example_rep_levels 5 "Some (NullArray 3)" "NullArray 3"] f r
  have s: "snd ?call = Some (NullArray 3)"
    and "\<exists>current others nullable output.
           Inr [Field True [Field True []]] = (Inr (current # others) :: Status + Field list)
         \<and> nullable_chain current = Inr nullable
         \<and> WrapIntoListArray_output (Inr [Field True [Field True []]]) example_list_descr
              example_def_levels example_rep_levels 5 (Some (NullArray 3)) = Inr (Some output)
         \<and> unwrap_lists (length nullable - 1) output = Some (NullArray 3)"
    by blast+
  then have u: "unwrap_lists 1
      (ListArray 4 [0, 2, 2, 2, 3] (NullArray 3) (Some [True, False, True, True]) 1)
     = Some (NullArray 3)"
    by (auto simp: example_wrap_output)
  from f s have "?call = (Inr (), Some (NullArray 3))" by (simp add: prod_eq_iff)
  with u example_wrap_output show ?thesis by blast
qed

section \<open>A column index that is out of range\<close>

lemma ColumnIndicesToFieldIndices_out_of_range:
  "\<exists>column_idx\<in>set indices. column_idx < 0 \<or> num_columns file \<le> column_idx \<Longrightarrow>
     ColumnIndicesToFieldIndices file indices = None"
  by (auto simp: ColumnIndicesToFieldIndices_def list_ex_iff)

text \<open>
  C7, as amended.  A table read, of the whole file or of one row group, whose column
  indices contain an index outside \<open>[0, num_columns)\<close> fails before any column is read,
  for every number of threads: with the error of the schema mapper if mapping the schema
  for these indices fails, and otherwise with the status \<^verbatim>\<open>Invalid\<close> and the message
  \<^verbatim>\<open>Invalid column index\<close>.
\<close>

theorem ReadTable_invalid_column_index:
  assumes "\<exists>column_idx\<in>set indices. column_idx < 0 \<or> num_columns file \<le> column_idx"
  shows "ReadTable b file GetSchema num_threads indices schedule
           = Some (Inl (StatusError (case GetSchema indices of
                                       Inl st \<Rightarrow> st
                                     | Inr schema \<Rightarrow> Status Invalid ''Invalid column index'')))
       \<and> ReadRowGroup b file GetSchema num_threads row_group_index indices schedule
           = Some (Inl (StatusError (case GetSchema indices of
                                       Inl st \<Rightarrow> st
                                     | Inr schema \<Rightarrow> Status Invalid ''Invalid column index'')))"
  using ColumnIndicesToFieldIndices_out_of_range[OF assms]
  by (simp add: ReadTable_def ReadRowGroup_def split: sum.splits)

theorem ReadTable_invalid_column_index_witness:
  "ReadTable Release example_file schema_ok 4 [0, 7] [0, 1, 0]
     = Some (Inl (StatusError (Status Invalid ''Invalid column index'')))
   \<and> ReadRowGroup Release example_file schema_ok 1 0 [0, 7] []
     = Some (Inl (StatusError (Status Invalid ''Invalid column index'')))
   \<and> num_columns example_file = 1"
proof -
  have h: "\<exists>column_idx\<in>set [0, 7]. column_idx < 0 \<or> num_columns example_file \<le> column_idx"
    by (simp add: example_file_def)
  from ReadTable_invalid_column_index[OF h, of Release schema_ok 4 "[0, 1, 0]"]
    ReadTable_invalid_column_index[OF h, of Release schema_ok 1 "[]" 0]
  show ?thesis by (simp add: schema_ok_def example_file_def)
qed

text \<open>
  The claim as stated fails where the schema mapper rejects the schema: the read of
  column 7 of a file with one column then ends with the mapper's \<^verbatim>\<open>NotImplemented\<close>.
\<close>

theorem ReadTable_invalid_column_index_counterexample:
  "num_columns example_file \<le> 7
   \<and> ReadTable Release example_file schema_unsupported 1 [0, 7] []
     = Some (Inl (StatusError (Status NotImplemented ''Unsupported logical type'')))
   \<and> ReadRowGroup Release example_file schema_unsupported 1 0 [0, 7] []
     = Some (Inl (StatusError (Status NotImplemented ''Unsupported logical type'')))"
  by (simp add: ReadTable_def ReadRowGroup_def schema_unsupported_def example_file_def)

section \<open>The parallel loop\<close>

lemma stored_append: "stored (es @ es') = stored es @ stored es'"
  by (simp add: stored_def map_filter_def)

lemma stored_step:
  "worker_step func n i s = (es, s') \<Longrightarrow>
     (stored es = [] \<and> error_occurred s' = error_occurred s \<and> error s' = error s) \<or>
     (\<exists>st. stored es = [st] \<and> error_occurred s' \<and> error s' = Some st)"
  by (auto simp: worker_step_def stored_def map_filter_def split: if_splits Worker.splits)

lemma run_error:
  "run func n sched s = (es, s') \<Longrightarrow>
     error_occurred s' = (error_occurred s \<or> stored es \<noteq> []) \<and>
     error s' = (if stored es = [] then error s else Some (last (stored es)))"
proof (induction sched arbitrary: s es s')
  case Nil
  then show ?case by (simp add: stored_def map_filter_def)
next
  case (Cons i sched)
  from Cons.prems obtain e1 s1 e2 where w: "worker_step func n i s = (e1, s1)"
    and r: "run func n sched s1 = (e2, s')" and es: "es = e1 @ e2"
    by (auto split: prod.splits)
  from Cons.IH[OF r] stored_step[OF w] es show ?case
    by (auto simp: stored_append)
qed

lemma worker_step_ok:
  assumes w: "worker_step func n i s = (es, s')"
    and ok: "list_all (worker_ok func n) (workers s)"
  shows "list_all (worker_ok func n) (workers s') \<and> (\<forall>st\<in>set (stored es). \<exists>t<n. func t = Some st)"
proof (cases "length (workers s) \<le> i")
  case True
  with w ok show ?thesis by (simp add: worker_step_def stored_def map_filter_def)
next
  case False
  hence i: "i < length (workers s)" by simp
  from ok i have wi: "worker_ok func n (workers s ! i)" by (simp add: list_all_length)
  have upd: "worker_ok func n w' \<Longrightarrow> list_all (worker_ok func n) ((workers s)[i := w'])" for w'
    using ok i by (auto simp: list_all_length nth_list_update)
  show ?thesis
  proof (cases "workers s ! i")
    case AtLoopHead
    with w i upd[of "if error_occurred s then Finished else AtClaim"] show ?thesis
      by (auto simp: worker_step_def stored_def map_filter_def worker_ok_def)
  next
    case AtClaim
    with w i upd[of "if n \<le> task_counter s then Finished else Running (task_counter s)"] show ?thesis
      by (auto simp: worker_step_def stored_def map_filter_def worker_ok_def)
  next
    case (Running t)
    with wi have "t < n" by (simp add: worker_ok_def)
    hence "worker_ok func n (case func t of None \<Rightarrow> AtLoopHead | Some st \<Rightarrow> Storing st)"
      by (auto simp: worker_ok_def split: option.splits)
    with w i Running upd show ?thesis
      by (auto simp: worker_step_def stored_def map_filter_def)
  next
    case (Storing st)
    with w i wi upd[of Finished] show ?thesis
      by (auto simp: worker_step_def stored_def map_filter_def worker_ok_def)
  next
    case Finished
    with w i ok show ?thesis by (simp add: worker_step_def stored_def map_filter_def)
  qed
qed

lemma run_ok:
  "run func n sched s = (es, s') \<Longrightarrow> list_all (worker_ok func n) (workers s) \<Longrightarrow>
     list_all (worker_ok func n) (workers s') \<and> (\<forall>st\<in>set (stored es). \<exists>t<n. func t = Some st)"
proof (induction sched arbitrary: s es s')
  case Nil
  then show ?case by (simp add: stored_def map_filter_def)
next
  case (Cons i sched)
  from Cons.prems obtain e1 s1 e2 where w: "worker_step func n i s = (e1, s1)"
    and r: "run func n sched s1 = (e2, s')" and es: "es = e1 @ e2"
    by (auto split: prod.splits)
  from worker_step_ok[OF w Cons.prems(2)] Cons.IH[OF r] es show ?case
    by (auto simp: stored_append)
qed

lemma fetches_step:
  "worker_step func n j s = (e1, s1) \<Longrightarrow>
     fetches_after_store i (error_occurred s) (e1 @ es) + fetch_bound s1 i
       \<le> fetch_bound s i + fetches_after_store i (error_occurred s1) es"
  by (auto simp: worker_step_def fetch_bound_def nth_list_update
      split: if_splits Worker.splits option.splits)

lemma run_fetches:
  "run func n sched s = (es, s') \<Longrightarrow>
     fetches_after_store i (error_occurred s) es \<le> fetch_bound s i"
proof (induction sched arbitrary: s es s')
  case Nil
  then show ?case by simp
next
  case (Cons j sched)
  from Cons.prems obtain e1 s1 e2 where w: "worker_step func n j s = (e1, s1)"
    and r: "run func n sched s1 = (e2, s')" and es: "es = e1 @ e2"
    by (auto split: prod.splits)
  from fetches_step[OF w, of i e2] Cons.IH[OF r] show ?case unfolding es by linarith
qed

lemma example_run:
  "run failing_task 2 [0, 1, 1, 1, 1, 0, 0, 0, 0] (initial_state 2) =
     ([(0, Tested False), (1, Tested False), (1, Fetched 0), (1, Ran 0),
       (1, Stored (Status IOError ''first task'')), (0, Fetched 1), (0, Ran 1),
       (0, Stored (Status IOError ''another task''))],
      \<lparr>task_counter = 2, error_occurred = True, error = Some (Status IOError ''another task''),
       workers = [Finished, Finished]\<rparr>)"
  by (simp add: worker_step_def initial_state_def numeral_2_eq_2 failing_task_def)

text \<open>
  C8, as amended.  Under every interleaving of the workers after which all of them have
  left their loops, \<^verbatim>\<open>ParallelFor\<close> reports the status stored last, the status of the last
  failed task to write \<^verbatim>\<open>error\<close> (and \<^verbatim>\<open>Status::OK()\<close> if no task failed); every stored status is
  the failed status of a task below \<open>num_tasks\<close>; and no worker fetches a task number more
  than once after the flag is set.
\<close>

theorem ParallelFor_reports_last_store:
  assumes "ParallelFor nthreads num_tasks func schedule = Some reported"
  shows "reported =
           (if stored (ParallelFor_events nthreads num_tasks func schedule) = [] then None
            else Some (last (stored (ParallelFor_events nthreads num_tasks func schedule))))
       \<and> (\<forall>st\<in>set (stored (ParallelFor_events nthreads num_tasks func schedule)).
             \<exists>task_id<num_tasks. func task_id = Some st)
       \<and> (\<forall>i. fetches_after_store i False
                  (ParallelFor_events nthreads num_tasks func schedule) \<le> 1)"
proof -
  obtain es s where r: "run func num_tasks schedule (initial_state nthreads) = (es, s)"
    by (cases "run func num_tasks schedule (initial_state nthreads)")
  hence ev: "ParallelFor_events nthreads num_tasks func schedule = es"
    by (simp add: ParallelFor_events_def)
  from assms r have rep: "reported = (if error_occurred s then error s else None)"
    by (simp add: ParallelFor_def split: if_splits)
  have init: "error_occurred (initial_state nthreads) = False" "error (initial_state nthreads) = None"
    "list_all (worker_ok func num_tasks) (workers (initial_state nthreads))"
    by (simp_all add: initial_state_def list_all_length worker_ok_def)
  from run_error[OF r] rep init have a: "reported = (if stored es = [] then None else Some (last (stored es)))"
    by simp
  from run_ok[OF r init(3)] have b: "\<forall>st\<in>set (stored es). \<exists>task_id<num_tasks. func task_id = Some st"
    by simp
  have c: "\<forall>i. fetches_after_store i False es \<le> 1"
  proof
    fix i
    from run_fetches[OF r, of i] init show "fetches_after_store i False es \<le> 1"
      by (simp add: fetch_bound_def)
  qed
  from a b c show ?thesis unfolding ev by (intro conjI)
qed

theorem ParallelFor_reports_last_store_witness:
  "ParallelFor 2 2 failing_task [0, 1, 1, 1, 1, 0, 0, 0, 0] = Some (Some (Status IOError ''another task''))
   \<and> last (stored (ParallelFor_events 2 2 failing_task [0, 1, 1, 1, 1, 0, 0, 0, 0]))
       = Status IOError ''another task''
   \<and> fetches_after_store 0 False (ParallelFor_events 2 2 failing_task [0, 1, 1, 1, 1, 0, 0, 0, 0]) \<le> 1"
proof -
  have h: "ParallelFor 2 2 failing_task [0, 1, 1, 1, 1, 0, 0, 0, 0]
             = Some (Some (Status IOError ''another task''))"
    unfolding ParallelFor_def example_run by (simp add: all_finished_def)
  from ParallelFor_reports_last_store[OF h] h show ?thesis
    unfolding ParallelFor_events_def example_run by (simp add: stored_def map_filter_def)
qed

text \<open>
  The claim as stated fails under the interleaving in which worker 1 runs task 0 to its
  store while worker 0 is past the test of the flag: worker 0 then fetches task 1 with the
  flag set, and its status, not the one that set the flag, is reported.
\<close>

theorem ParallelFor_reports_last_store_counterexample:
  "ParallelFor_events 2 2 failing_task [0, 1, 1, 1, 1, 0, 0, 0, 0] =
     [(0, Tested False), (1, Tested False), (1, Fetched 0), (1, Ran 0),
      (1, Stored (Status IOError ''first task'')), (0, Fetched 1), (0, Ran 1),
      (0, Stored (Status IOError ''another task''))]
   \<and> ParallelFor 2 2 failing_task [0, 1, 1, 1, 1, 0, 0, 0, 0]
       = Some (Some (Status IOError ''another task''))
   \<and> fetches_after_store 0 False (ParallelFor_events 2 2 failing_task [0, 1, 1, 1, 1, 0, 0, 0, 0]) = 1"
  unfolding ParallelFor_def ParallelFor_events_def example_run by (simp add: all_finished_def)


section \<open>Struct arrays\<close>

lemma StructImpl_null_bits_eq:
  "StructImpl_null_bits sd tp ds =
     (map (\<lambda>d. sd \<le> d) (filter (\<lambda>d. sd \<le> d \<or> tp \<le> d) ds),
      int (length (filter (\<lambda>d. d < sd \<and> tp \<le> d) ds)))"
  by (induction ds) auto

lemma StructImpl_NextBatch_children_arrays:
  "StructImpl_NextBatch_children b n cs = (Inr (Some arrays), cs') \<Longrightarrow>
     list_all2 (\<lambda>c a. fst (NextBatch b n c) = Inr (Some a)) cs arrays \<and>
     cs' = map (\<lambda>c. snd (NextBatch b n c)) cs"
  by (induction cs arbitrary: arrays cs') (auto split: prod.splits sum.splits option.splits)

lemma StructImpl_def_fold_Debug:
  "StructImpl_def_fold Debug sd res streams = Inr m \<Longrightarrow> \<forall>s\<in>set streams. length s = length res"
proof (induction streams arbitrary: res m)
  case Nil
  then show ?case by simp
next
  case (Cons s streams)
  from Cons.prems obtain res' where r': "StructImpl_def_child Debug sd res s = Inr res'"
    and f: "StructImpl_def_fold Debug sd res' streams = Inr m"
    by (auto split: sum.splits)
  from r' have l: "length s = length res" and mr: "StructImpl_def_merge Debug sd res s = Inr res'"
    by (auto simp: StructImpl_def_child_def split: if_splits)
  from StructImpl_def_merge_Inr[OF mr] Cons.IH[OF f] l show ?case by simp
qed


lemma StructImpl_GetDefLevels_Debug:
  assumes "GetDefLevels Debug (ImplStruct cs sd sr tp) = (Inr merged, t')"
  shows "list_all (\<lambda>c. \<exists>s. fst (GetDefLevels Debug c) = Inr s \<and> length s = length merged) cs"
proof -
  from StructImpl_GetDefLevels_streams[OF assms] obtain streams where
    s: "list_all2 (\<lambda>c s. fst (GetDefLevels Debug c) = Inr s) cs streams"
    and m: "StructImpl_merge_def_levels Debug sd streams = Inr merged" by blast
  show ?thesis
  proof (cases streams)
    case Nil
    with s show ?thesis by simp
  next
    case (Cons first rest)
    with m have f: "StructImpl_def_fold Debug sd (replicate (length first) (- 1)) streams = Inr merged"
      by (simp add: StructImpl_merge_def_levels_def memset_int16_minus_one)
    from StructImpl_def_fold_Debug[OF f] StructImpl_def_fold_Inr[OF f]
    have "\<forall>s\<in>set streams. length s = length merged" by simp
    with s show ?thesis
      by (auto simp: list_all_length list_all2_conv_all_nth)
  qed
qed

lemma example_member_leaf_NextBatch:
  "PrimitiveImpl_NextBatch 3 example_member_leaf =
     (Inr (Some (PrimitiveArray INT32 3 [None, None, Some (AInt32 5)]
                   (Some [False, False, True]) 2)),
      \<lparr>chunks = [example_member_chunk], input = AllRowGroupsIterator 1,
       descr = example_member_descr, column_reader = None, field_type = INT32,
       def_levels_buffer = [0, 1, 2], rep_levels_buffer = []\<rparr>)"
  by (simp add: example_member_leaf_def PrimitiveImpl_new_def PrimitiveImpl_NextBatch_def
      TypedReadBatch_def read_loop.simps read_step_def ReadNullableBatch_def ReadBatchSpaced_def
      spaced_slot_def map_filter_def
      example_member_chunk_def example_member_descr_def convert_value_def as_int32_def
      empty_acc_def after_read_def HasNext_def NextRowGroup_def finish_levels_def Let_def)

text \<open>
  C3, as amended.  A struct array that \<^verbatim>\<open>StructImpl::NextBatch\<close> returns holds one array per
  child, the one the child's \<^verbatim>\<open>NextBatch\<close> returned, and has the length of the first of
  them; the lengths of the others are not compared with it.  Its validity bitmap has one
  bit for every position of the merged definition levels that is at least the struct's
  definition level or at least the level of its top non-repeated parent, in their order,
  and the bit is 1 iff the level is at least the struct's definition level; the bitmap is
  absent when no bit is 0.  So when no merged level is below the parent's level, bit \<open>i\<close>
  is 1 iff the merged level at position \<open>i\<close> is at least the struct's definition level.
  What a debug build asserts is that the children's definition level streams have the
  same length, that of the merged stream.
\<close>

theorem StructImpl_NextBatch_array:
  assumes "NextBatch b n (ImplStruct cs sd sr tp) = (Inr (Some a), t')"
  shows "\<exists>arrays merged.
           list_all2 (\<lambda>c child_array. fst (NextBatch b n c) = Inr (Some child_array)) cs arrays
         \<and> arrays \<noteq> []
         \<and> GetDefLevels b (ImplStruct (map (\<lambda>c. snd (NextBatch b n c)) cs) sd sr tp)
             = (Inr merged, t')
         \<and> a = StructArray (array_length (hd arrays)) arrays
                 (if filter (\<lambda>d. d < sd \<and> tp \<le> d) merged = [] then None
                  else Some (map (\<lambda>d. sd \<le> d) (filter (\<lambda>d. sd \<le> d \<or> tp \<le> d) merged)))
                 (int (length (filter (\<lambda>d. d < sd \<and> tp \<le> d) merged)))
         \<and> ((\<forall>d\<in>set merged. tp \<le> d) \<longrightarrow>
              (\<forall>i<length merged.
                 map (\<lambda>d. sd \<le> d) (filter (\<lambda>d. sd \<le> d \<or> tp \<le> d) merged) ! i
                   \<longleftrightarrow> sd \<le> merged ! i))
         \<and> (b = Debug \<longrightarrow>
              list_all (\<lambda>c. \<exists>s. fst (GetDefLevels b (snd (NextBatch b n c))) = Inr s
                                \<and> length s = length merged) cs)"
proof -
  from assms obtain arrays cs' where ch: "StructImpl_NextBatch_children b n cs = (Inr (Some arrays), cs')"
    by (auto split: prod.splits sum.splits option.splits list.splits)
  note ca = StructImpl_NextBatch_children_arrays[OF ch]
  from assms ch obtain merged where
    g: "GetDefLevels b (ImplStruct cs' sd sr tp) = (Inr merged, t')"
    and ne: "arrays \<noteq> []"
    and a: "a = StructArray (array_length (hd arrays)) arrays
                 (if filter (\<lambda>d. d < sd \<and> tp \<le> d) merged = [] then None
                  else Some (map (\<lambda>d. sd \<le> d) (filter (\<lambda>d. sd \<le> d \<or> tp \<le> d) merged)))
                 (int (length (filter (\<lambda>d. d < sd \<and> tp \<le> d) merged)))"
    by (auto simp: StructImpl_DefLevelsToNullArray_def StructImpl_null_bits_eq
        split: prod.splits sum.splits option.splits list.splits if_splits)
  have bits: "(\<forall>d\<in>set merged. tp \<le> d) \<longrightarrow>
              (\<forall>i<length merged.
                 map (\<lambda>d. sd \<le> d) (filter (\<lambda>d. sd \<le> d \<or> tp \<le> d) merged) ! i
                   \<longleftrightarrow> sd \<le> merged ! i)"
  proof
    assume "\<forall>d\<in>set merged. tp \<le> d"
    hence "filter (\<lambda>d. sd \<le> d \<or> tp \<le> d) merged = merged" by (simp add: filter_id_conv)
    thus "\<forall>i<length merged.
                 map (\<lambda>d. sd \<le> d) (filter (\<lambda>d. sd \<le> d \<or> tp \<le> d) merged) ! i
                   \<longleftrightarrow> sd \<le> merged ! i" by simp
  qed
  have dbg: "b = Debug \<longrightarrow>
              list_all (\<lambda>c. \<exists>s. fst (GetDefLevels b (snd (NextBatch b n c))) = Inr s
                                \<and> length s = length merged) cs"
  proof
    assume d: "b = Debug"
    from StructImpl_GetDefLevels_Debug[OF g[unfolded d]] ca d
    show "list_all (\<lambda>c. \<exists>s. fst (GetDefLevels b (snd (NextBatch b n c))) = Inr s
                                \<and> length s = length merged) cs"
      by (simp add: list_all_length)
  qed
  from ca ne g a bits dbg show ?thesis
    by (intro exI[of _ arrays] exI[of _ merged]) simp
qed


theorem StructImpl_NextBatch_array_witness:
  "fst (NextBatch Debug 3 (ImplStruct [ImplPrimitive example_member_leaf] 1 0 0)) =
     Inr (Some (StructArray 3
                  [PrimitiveArray INT32 3 [None, None, Some (AInt32 5)]
                     (Some [False, False, True]) 2]
                  (Some [False, True, True]) 1))
   \<and> fst (GetDefLevels Debug
            (ImplStruct (map (\<lambda>c. snd (NextBatch Debug 3 c)) [ImplPrimitive example_member_leaf])
               1 0 0)) = Inr [0, 1, 1]"
proof -
  let ?t = "ImplStruct [ImplPrimitive example_member_leaf] 1 0 0"
  let ?a = "StructArray 3
                  [PrimitiveArray INT32 3 [None, None, Some (AInt32 5)]
                     (Some [False, False, True]) 2]
                  (Some [False, True, True]) 1"
  have e: "fst (NextBatch Debug 3 ?t) = Inr (Some ?a)"
    by (simp add: example_member_leaf_NextBatch StructImpl_DefLevelsToNullArray_def
        memset_int16_def StructImpl_def_child_def cons_ok_def)
  hence h: "NextBatch Debug 3 ?t = (Inr (Some ?a), snd (NextBatch Debug 3 ?t))"
    by (simp add: prod_eq_iff)
  from StructImpl_NextBatch_array[OF h] obtain arrays merged where
    g: "GetDefLevels Debug
          (ImplStruct (map (\<lambda>c. snd (NextBatch Debug 3 c)) [ImplPrimitive example_member_leaf])
             1 0 0) = (Inr merged, snd (NextBatch Debug 3 ?t))"
    and a: "?a = StructArray (array_length (hd arrays)) arrays
                 (if filter (\<lambda>d. d < 1 \<and> 0 \<le> d) merged = [] then None
                  else Some (map (\<lambda>d. 1 \<le> d) (filter (\<lambda>d. 1 \<le> d \<or> 0 \<le> d) merged)))
                 (int (length (filter (\<lambda>d. d < 1 \<and> 0 \<le> d) merged)))"
    by blast
  have "merged = [0, 1, 1]"
    using g by (simp add: example_member_leaf_NextBatch
        memset_int16_def StructImpl_def_child_def cons_ok_def)
  with g have "fst (GetDefLevels Debug
            (ImplStruct (map (\<lambda>c. snd (NextBatch Debug 3 c)) [ImplPrimitive example_member_leaf])
               1 0 0)) = Inr [0, 1, 1]"
    by (simp only: fst_conv)
  with e show ?thesis by (rule conjI)
qed

text \<open>
  The claim as stated fails for a struct with a child of the null type: that child's
  array has the batch size as its length, whatever the other children have left to read.
\<close>

theorem StructImpl_NextBatch_array_counterexample:
  "fst (NextBatch Debug 5
          (ImplStruct [ImplPrimitive (example_leaf NA), ImplPrimitive (example_leaf INT32)] 0 0 0))
     = Inr (Some (StructArray 5
                    [NullArray 5,
                     PrimitiveArray INT32 2 [Some (AInt32 7), Some (AInt32 8)] None 0]
                    None 0))
   \<and> array_length (NullArray 5) = 5
   \<and> array_length (PrimitiveArray INT32 2 [Some (AInt32 7), Some (AInt32 8)] None 0) = 2"
  by (simp add: example_leaf_simps PrimitiveImpl_NextBatch_def TypedReadBatch_def
      read_loop.simps read_step_def ReadNonNullableBatch_def ReadBatch_def example_chunk_def
      example_descr_def convert_value_def as_int32_def empty_acc_def after_read_def HasNext_def
      NextRowGroup_def finish_levels_def StructImpl_DefLevelsToNullArray_def
      memset_int16_def StructImpl_def_child_def cons_ok_def)


section \<open>List arrays\<close>


















section \<open>The batch size of a field and what it leaves to read\<close>

lemma GetRepLevels_leaves:
  "tree_leaves (snd (GetRepLevels b t)) = tree_leaves t"
  "concat (map tree_leaves (snd (StructImpl_GetRepLevels_loop b res cs))) = concat (map tree_leaves cs)"
  by (induction b t and b res cs rule: GetRepLevels_StructImpl_GetRepLevels_loop.induct)
     (fastforce simp: Let_def split: option.splits prod.splits sum.splits)+

lemma GetDefLevels_leaves:
  "tree_leaves (snd (GetDefLevels b t)) = tree_leaves t"
  "concat (map tree_leaves (snd (StructImpl_GetDefLevels_loop b sd res cs))) = concat (map tree_leaves cs)"
proof (induction b t and b sd res cs rule: GetDefLevels_StructImpl_GetDefLevels_loop.induct)
  case (2 b c ld lr ms dbuf rbuf)
  then show ?case
    using GetRepLevels_leaves(1)[of b "snd (GetDefLevels b c)"]
    by (fastforce split: option.splits prod.splits sum.splits)
qed (fastforce split: option.splits prod.splits sum.splits)+

lemma ListImpl_DefLevelsToNullArray_leaves:
  "tree_leaves (snd (ListImpl_DefLevelsToNullArray b t)) = tree_leaves t"
  using GetDefLevels_leaves(1)[of b t]
  by (auto simp: ListImpl_DefLevelsToNullArray_def split: prod.splits sum.splits)

lemma StructImpl_DefLevelsToNullArray_leaves:
  "tree_leaves (snd (StructImpl_DefLevelsToNullArray b t)) = tree_leaves t"
  using GetDefLevels_leaves(1)[of b t]
  by (auto simp: StructImpl_DefLevelsToNullArray_def split: prod.splits sum.splits)


lemma ListImpl_GetDefLevels_shape:
  "\<exists>c1 dbuf1. snd (GetDefLevels b (ImplList c ld lr ms dbuf rbuf)) = ImplList c1 ld lr ms dbuf1 rbuf"
  by (auto split: option.splits prod.splits sum.splits)

lemma ListImpl_RepLevelsToOffsetsArray_leaves:
  "tree_leaves (snd (ListImpl_RepLevelsToOffsetsArray b (ImplList c ld lr ms dbuf rbuf))) = tree_leaves c"
proof -
  let ?t = "ImplList c ld lr ms dbuf rbuf"
  obtain r1 t1 where g: "GetDefLevels b ?t = (r1, t1)" by (cases "GetDefLevels b ?t")
  from ListImpl_GetDefLevels_shape[of b c ld lr ms dbuf rbuf] g obtain c1 dbuf1 where
    t1: "t1 = ImplList c1 ld lr ms dbuf1 rbuf" by auto
  from GetDefLevels_leaves(1)[of b ?t] g t1 have l1: "tree_leaves c1 = tree_leaves c" by simp
  obtain r2 c2 where g2: "GetDefLevels b c1 = (r2, c2)" by (cases "GetDefLevels b c1")
  from GetDefLevels_leaves(1)[of b c1] g2 have l2: "tree_leaves c2 = tree_leaves c1" by simp
  obtain r3 c3 where g3: "GetRepLevels b c2 = (r3, c3)" by (cases "GetRepLevels b c2")
  from GetRepLevels_leaves(1)[of b c2] g3 have l3: "tree_leaves c3 = tree_leaves c2" by simp
  from g t1 g2 g3 l1 l2 l3 show ?thesis
    by (auto simp: ListImpl_RepLevelsToOffsetsArray_def split: sum.splits)
qed

lemma NextBatch_drains:
  "\<forall>p\<in>set (tree_leaves t). leaf_inv p \<and> field_type p \<noteq> NA \<and> int (leaf_levels p) \<le> n \<Longrightarrow>
   NextBatch b n t = (Inr (Some a), t') \<Longrightarrow>
     \<forall>p\<in>set (tree_leaves t'). leaf_levels p = 0"
  "\<forall>p\<in>set (concat (map tree_leaves cs)). leaf_inv p \<and> field_type p \<noteq> NA \<and> int (leaf_levels p) \<le> n \<Longrightarrow>
   StructImpl_NextBatch_children b n cs = (Inr (Some arrays), cs') \<Longrightarrow>
     \<forall>p\<in>set (concat (map tree_leaves cs')). leaf_levels p = 0"
proof (induction b n t and b n cs arbitrary: a t' and arrays cs'
        rule: NextBatch_StructImpl_NextBatch_children.induct)
  case (1 b batch_size p)
  from "1.prems"(2) obtain p' where n: "PrimitiveImpl_NextBatch batch_size p = (Inr (Some a), p')"
    and t': "t' = ImplPrimitive p'"
    by (auto split: prod.splits)
  from "1.prems"(1) PrimitiveImpl_NextBatch_drains[OF _ _ _ n] t' show ?case by simp
next
  case (2 b batch_size c ld lr ms dbuf rbuf)
  from "2.prems"(2) obtain child_array c' where
    nb: "NextBatch b batch_size c = (Inr (Some child_array), c')"
    by (auto split: prod.splits sum.splits option.splits)
  from "2.IH"[OF _ nb] "2.prems"(1) have d: "\<forall>p\<in>set (tree_leaves c'). leaf_levels p = 0" by simp
  let ?t0 = "ImplList c' ld lr ms None None"
  obtain r1 t1 where dn: "ListImpl_DefLevelsToNullArray b ?t0 = (r1, t1)"
    by (cases "ListImpl_DefLevelsToNullArray b ?t0")
  from ListImpl_GetDefLevels_shape[of b c' ld lr ms None None] dn obtain c1 dbuf1 where
    t1: "t1 = ImplList c1 ld lr ms dbuf1 None"
    by (auto simp: ListImpl_DefLevelsToNullArray_def split: prod.splits sum.splits)
  from ListImpl_DefLevelsToNullArray_leaves[of b ?t0] dn t1
  have l1: "tree_leaves c1 = tree_leaves c'" by simp
  from "2.prems"(2) nb dn have "t' = t1 \<or> t' = snd (ListImpl_RepLevelsToOffsetsArray b t1)"
    by (auto split: prod.splits sum.splits)
  with t1 l1 ListImpl_RepLevelsToOffsetsArray_leaves[of b c1 ld lr ms dbuf1 None]
  have "tree_leaves t' = tree_leaves c'" by auto
  with d show ?case by simp
next
  case (3 b batch_size cs sd sr tp)
  from "3.prems"(2) obtain children_arrays cs1 where
    ch: "StructImpl_NextBatch_children b batch_size cs = (Inr (Some children_arrays), cs1)"
    by (auto split: prod.splits sum.splits option.splits)
  from "3.IH"[OF _ ch] "3.prems"(1)
  have d: "\<forall>p\<in>set (concat (map tree_leaves cs1)). leaf_levels p = 0" by simp
  from "3.prems"(2) ch have "t' = snd (StructImpl_DefLevelsToNullArray b (ImplStruct cs1 sd sr tp))"
    by (auto split: prod.splits sum.splits list.splits)
  with StructImpl_DefLevelsToNullArray_leaves[of b "ImplStruct cs1 sd sr tp"]
  have "tree_leaves t' = concat (map tree_leaves cs1)" by simp
  with d show ?case by simp
next
  case (4 b batch_size)
  then show ?case by simp
next
  case (5 b batch_size c cs)
  from "5.prems"(2) obtain child_array c' rest cs1 where
    nb: "NextBatch b batch_size c = (Inr (Some child_array), c')"
    and ch: "StructImpl_NextBatch_children b batch_size cs = (Inr (Some rest), cs1)"
    and cs': "cs' = c' # cs1"
    by (auto split: prod.splits sum.splits option.splits)
  from "5.IH"(1)[OF _ nb] "5.prems"(1) have d1: "\<forall>p\<in>set (tree_leaves c'). leaf_levels p = 0"
    by simp
  from "5.IH"(2)[OF nb[symmetric] refl refl _ ch] "5.prems"(1)
  have d2: "\<forall>p\<in>set (concat (map tree_leaves cs1)). leaf_levels p = 0" by simp
  from d1 d2 cs' show ?case by auto
qed

lemma GetReaderForNode_leaves:
  "GetReaderForNode b file indices rg node pd pr = Inr (Some t) \<Longrightarrow>
     \<forall>p\<in>set (tree_leaves t). \<exists>c\<in>set (node_columns node) \<inter> set indices. p = GetColumn file c rg"
  "GetReaderForNode_fields b file indices rg nodes pd pr = Inr ts \<Longrightarrow>
     \<forall>p\<in>set (concat (map tree_leaves ts)).
        \<exists>c\<in>set (concat (map node_columns nodes)) \<inter> set indices. p = GetColumn file c rg"
proof (induction b "file" indices rg node pd pr and b "file" indices rg nodes pd pr
        arbitrary: t and ts rule: GetReaderForNode_GetReaderForNode_fields.induct)
  case (1 b f indices row_group_index name rep column_index parent_def_level parent_rep_level)
  then show ?case by (auto split: if_splits)
next
  case (2 b f indices row_group_index name rep lt is_struct top_level group_fields
          parent_def_level parent_rep_level)
  let ?d = "if rep = REQUIRED then parent_def_level else parent_def_level + 1"
  show ?case
  proof (cases is_struct)
    case True
    with "2.prems" obtain child_readers where
      f: "GetReaderForNode_fields b f indices row_group_index group_fields ?d parent_rep_level
            = Inr child_readers"
      and t: "t = ImplStruct child_readers ?d parent_rep_level (top_level ?d)"
      by (auto simp: Let_def split: sum.splits if_splits)
    from "2.IH"(1)[OF refl True f] t show ?thesis by simp
  next
    case False
    with "2.prems" obtain rep_group others where gf: "group_fields = rep_group # others"
      by (cases group_fields) (auto simp: Let_def)
    with False "2.prems" obtain rname rrep rlt ris_struct rtop_level rfields where
      rg: "rep_group = GroupNode rname rrep rlt ris_struct rtop_level rfields"
      by (cases rep_group) (auto simp: Let_def)
    from False "2.prems" gf rg have nd: "\<not> (b = Debug \<and> rrep \<noteq> REPEATED)"
      by (auto simp: Let_def split: if_splits)
    show ?thesis
    proof (cases "lt = LIST")
      case True
      with False "2.prems" gf rg nd obtain element_node rest where rf: "rfields = element_node # rest"
        by (cases rfields) (auto simp: Let_def)
      from True False "2.prems" gf rg nd rf obtain child_reader where
        g: "GetReaderForNode b f indices row_group_index element_node (?d + 1)
              (parent_rep_level + 1) = Inr (Some child_reader)"
        and t: "t = ImplList child_reader ?d parent_rep_level (top_level ?d) None None"
        by (auto simp: Let_def split: sum.splits option.splits if_splits)
      from "2.IH"(2)[OF refl False gf rg nd True rf g] t gf rg rf show ?thesis by auto
    next
      case nl: False
      from nl False "2.prems" gf rg nd have c1: "\<not> (b = Debug \<and> lt \<noteq> MAP \<and> lt \<noteq> MAP_KEY_VALUE)"
        and c2: "\<not> (b = Debug \<and> \<not> key_value_names rfields)"
        by (auto simp: Let_def split: if_splits)
      from nl False "2.prems" gf rg nd c1 c2 obtain child_reader where
        g: "GetReaderForNode b f indices row_group_index rep_group ?d
              (parent_rep_level + 1) = Inr (Some child_reader)"
        and t: "t = ImplList child_reader ?d parent_rep_level (top_level ?d) None None"
        by (auto simp: Let_def split: sum.splits option.splits if_splits)
      from "2.IH"(3)[OF refl False gf rg nd nl c1 c2 g] t gf show ?thesis by auto
    qed
  qed
next
  case (3 b f indices row_group_index def_level parent_rep_level)
  then show ?case by simp
next
  case (4 b f indices row_group_index node nodes def_level parent_rep_level)
  from "4.prems" obtain child_reader child_readers where
    g: "GetReaderForNode b f indices row_group_index node def_level parent_rep_level
          = Inr child_reader"
    and f: "GetReaderForNode_fields b f indices row_group_index nodes def_level parent_rep_level
          = Inr child_readers"
    and ts: "ts = (case child_reader of None \<Rightarrow> [] | Some c \<Rightarrow> [c]) @ child_readers"
    by (auto split: sum.splits)
  note ih2 = "4.IH"(2)[OF g f]
  show ?case
  proof (cases child_reader)
    case None
    with ts ih2 show ?thesis by fastforce
  next
    case (Some c)
    from "4.IH"(1)[OF g[unfolded Some]] ih2 ts Some show ?thesis by fastforce
  qed
qed

lemma GetColumn_inv: "leaf_inv (GetColumn file c rg)"
  by (simp add: GetColumn_def PrimitiveImpl_new_inv)

lemma GetColumn_field_type: "field_type (GetColumn file c rg) = column_field_type file c"
  by (simp add: GetColumn_def PrimitiveImpl_new_def NextRowGroup_def split: prod.splits)

lemma GetColumn_levels:
  "leaf_levels (GetColumn file c (- 1))
     = sum_list (map (\<lambda>j. length (entries (Column file j c))) [0 ..< num_row_groups file])"
  by (simp add: GetColumn_def PrimitiveImpl_new_def NextRowGroup_levels comp_def)

lemma int64_id: "- (2 ^ 63) \<le> x \<Longrightarrow> x < 2 ^ 63 \<Longrightarrow> int64 x = x"
  by (simp add: int64_def sint_sbintrunc' signed_take_bit_int_eq_self)

lemma int64_add: "int64 (int64 a + int64 b) = int64 (a + b)"
  by (simp add: int64_def wi_hom_syms)

lemma int64_zero: "int64 0 = 0"
  by (simp add: int64_def)

lemma fold_int64_sum_list:
  "fold (\<lambda>j acc. int64 (acc + int64 (f j))) xs (int64 a) = int64 (a + sum_list (map f xs))"
proof (induction xs arbitrary: a)
  case Nil
  then show ?case by simp
next
  case (Cons x xs)
  have "fold (\<lambda>j acc. int64 (acc + int64 (f j))) (x # xs) (int64 a)
          = fold (\<lambda>j acc. int64 (acc + int64 (f j))) xs (int64 (a + f x))"
    by (simp add: int64_add)
  also have "\<dots> = int64 (a + f x + sum_list (map f xs))" by (rule Cons.IH)
  finally show ?case by (simp add: add.assoc)
qed

lemma column_batch_size_sum:
  "column_batch_size file c = int64 (\<Sum>j<num_row_groups file. num_values file j c)"
  using fold_int64_sum_list[of "\<lambda>j. num_values file j c" "[0 ..< num_row_groups file]" 0]
  by (simp add: column_batch_size_def int64_zero sum_list_distinct_conv_sum_set atLeast0LessThan)

lemma Max_insert_max:
  "finite S \<Longrightarrow> Max (insert (max a y) S) = Max (insert (a :: int) (insert y S))"
  by (cases "S = {}") (simp_all add: max.assoc)

lemma fold_max_Max:
  "fold (\<lambda>c (bs :: int). if root c \<noteq> i then bs else max bs (g c)) xs a
     = Max (insert a (g ` {c \<in> set xs. root c = i}))"
proof (induction xs arbitrary: a)
  case Nil
  then show ?case by simp
next
  case (Cons x xs)
  show ?case
  proof (cases "root x = i")
    case True
    hence s: "{c \<in> set (x # xs). root c = i} = insert x {c \<in> set xs. root c = i}" by auto
    have "Max (insert (max a (g x)) (g ` {c \<in> set xs. root c = i}))
            = Max (insert a (insert (g x) (g ` {c \<in> set xs. root c = i})))"
      by (rule Max_insert_max) simp
    with Cons.IH[of "max a (g x)"] True s show ?thesis by simp
  next
    case False
    hence "{c \<in> set (x # xs). root c = i} = {c \<in> set xs. root c = i}" by auto
    with Cons.IH[of a] False show ?thesis by simp
  qed
qed

lemma ReadSchemaField_batch_size_Max:
  "ReadSchemaField_batch_size file indices i (- 1)
     = Max (insert 0 (column_batch_size file ` {c \<in> set indices. GetColumnRoot file c = i}))"
  by (simp add: ReadSchemaField_batch_size_def fold_max_Max)

lemma static_cast_int_id: "0 \<le> x \<Longrightarrow> x < 2 ^ 31 \<Longrightarrow> static_cast_int x = x"
  by (simp add: static_cast_int_def sint_sbintrunc' signed_take_bit_int_eq_self)

lemma ReadSchemaField_batch_size_nonneg:
  "0 \<le> ReadSchemaField_batch_size file indices i (- 1)"
  by (simp add: ReadSchemaField_batch_size_Max)

lemma two_lists_file_batch_size:
  "ReadSchemaField_batch_size two_lists_file [0, 1] 0 (- 1) = 4"
  by (simp add: ReadSchemaField_batch_size_def column_batch_size_def two_lists_file_def
      numeral_2_eq_2 int64_id)

lemma two_lists_file_read:
  "fst (ReadSchemaField_run Debug two_lists_file 0 [0, 1] (- 1)) =
     Inr (Some (StructArray 2
       [ListArray 2 [0, 3, 4]
          (PrimitiveArray INT32 4
             [Some (AInt32 1), Some (AInt32 2), Some (AInt32 3), Some (AInt32 4)]
             (Some [True, True, True, True]) 0)
          None 0,
        ListArray 2 [0, 1, 4]
          (PrimitiveArray INT32 4
             [Some (AInt32 4), Some (AInt32 1), Some (AInt32 2), Some (AInt32 3)]
             (Some [True, True, True, True]) 0)
          None 0]
       None 0))"
  by code_simp

lemma two_lists_file_tree:
  "snd (ReadSchemaField_run Debug two_lists_file 0 [0, 1] (- 1)) \<noteq> None"
  by code_simp



text \<open>
  C1, as amended.  For a read of a top-level field over all row groups, the batch size
  \<^verbatim>\<open>ReadSchemaField\<close> computes is the maximum, over the requested columns that belong to
  the field, of the column's value count summed over the row groups (and 0 if there is
  none).  The sum is taken in \<^verbatim>\<open>int64_t\<close>: it is the low 64 bits of the sum of the counts,
  and the sum itself when that fits.  If for every requested column of the field's
  subtree the schema gives the field as its root, its type is not the null type, the
  metadata's value count of each of its chunks is the number of level entries of the
  chunk and the counts sum to less than \<open>2 ^ 63\<close>, and if the batch size fits an \<^verbatim>\<open>int\<close>,
  then a \<^verbatim>\<open>NextBatch\<close> with that size that returns an array leaves no level entry unread
  in any leaf of the subtree.
\<close>

theorem ReadSchemaField_batch_size_drains:
  "ReadSchemaField_batch_size file indices i (- 1)
     = Max (insert 0 (column_batch_size file ` {c \<in> set indices. GetColumnRoot file c = i}))
   \<and> column_batch_size file column_idx
       = int64 (\<Sum>j<num_row_groups file. num_values file j column_idx)
   \<and> (- (2 ^ 63) \<le> (\<Sum>j<num_row_groups file. num_values file j column_idx)
        \<and> (\<Sum>j<num_row_groups file. num_values file j column_idx) < 2 ^ 63
       \<longrightarrow> column_batch_size file column_idx
             = (\<Sum>j<num_row_groups file. num_values file j column_idx))
   \<and> ((\<forall>c\<in>set (node_columns (root_fields file ! i)) \<inter> set indices.
          GetColumnRoot file c = i \<and> column_field_type file c \<noteq> NA \<and>
          (\<forall>j<num_row_groups file. num_values file j c = int (length (entries (Column file j c)))) \<and>
          (\<Sum>j<num_row_groups file. num_values file j c) < 2 ^ 63)
        \<and> ReadSchemaField_batch_size file indices i (- 1) < 2 ^ 31
        \<and> ReadSchemaField_run b file i indices (- 1) = (Inr (Some a), Some t')
       \<longrightarrow> (\<forall>p\<in>set (tree_leaves t'). leaf_levels p = 0))"
proof (intro conjI impI)
  show "ReadSchemaField_batch_size file indices i (- 1)
     = Max (insert 0 (column_batch_size file ` {c \<in> set indices. GetColumnRoot file c = i}))"
    by (rule ReadSchemaField_batch_size_Max)
  show "column_batch_size file column_idx
          = int64 (\<Sum>j<num_row_groups file. num_values file j column_idx)"
    by (rule column_batch_size_sum)
next
  assume "- (2 ^ 63) \<le> (\<Sum>j<num_row_groups file. num_values file j column_idx)
        \<and> (\<Sum>j<num_row_groups file. num_values file j column_idx) < 2 ^ 63"
  thus "column_batch_size file column_idx
          = (\<Sum>j<num_row_groups file. num_values file j column_idx)"
    by (simp add: column_batch_size_sum int64_id)
next
  let ?n = "ReadSchemaField_batch_size file indices i (- 1)"
  assume h: "(\<forall>c\<in>set (node_columns (root_fields file ! i)) \<inter> set indices.
          GetColumnRoot file c = i \<and> column_field_type file c \<noteq> NA \<and>
          (\<forall>j<num_row_groups file. num_values file j c = int (length (entries (Column file j c)))) \<and>
          (\<Sum>j<num_row_groups file. num_values file j c) < 2 ^ 63)
        \<and> ?n < 2 ^ 31
        \<and> ReadSchemaField_run b file i indices (- 1) = (Inr (Some a), Some t')"
  hence cols: "\<forall>c\<in>set (node_columns (root_fields file ! i)) \<inter> set indices.
          GetColumnRoot file c = i \<and> column_field_type file c \<noteq> NA \<and>
          (\<forall>j<num_row_groups file. num_values file j c = int (length (entries (Column file j c)))) \<and>
          (\<Sum>j<num_row_groups file. num_values file j c) < 2 ^ 63"
    and small: "?n < 2 ^ 31"
    and run: "ReadSchemaField_run b file i indices (- 1) = (Inr (Some a), Some t')"
    by blast+
  from ReadSchemaField_batch_size_nonneg small have sc: "static_cast_int ?n = ?n"
    by (rule static_cast_int_id)
  from run obtain t where
    g: "GetReaderForNode b file indices (- 1) (root_fields file ! i) 0 0 = Inr (Some t)"
    and nb: "NextBatch b ?n t = (Inr (Some a), t')"
    by (auto simp: ReadSchemaField_run_def sc split: if_splits sum.splits option.splits prod.splits)
  have "leaf_inv p \<and> field_type p \<noteq> NA \<and> int (leaf_levels p) \<le> ?n"
    if p: "p \<in> set (tree_leaves t)" for p
  proof -
    from GetReaderForNode_leaves(1)[OF g] p obtain c where
      c: "c \<in> set (node_columns (root_fields file ! i)) \<inter> set indices"
      and pc: "p = GetColumn file c (- 1)" by blast
    from cols c have root: "GetColumnRoot file c = i" and ty: "column_field_type file c \<noteq> NA"
      and nv: "\<forall>j<num_row_groups file. num_values file j c = int (length (entries (Column file j c)))"
      and bound: "(\<Sum>j<num_row_groups file. num_values file j c) < 2 ^ 63"
      by blast+
    from nv have nonneg: "0 \<le> (\<Sum>j<num_row_groups file. num_values file j c)"
      by (intro sum_nonneg) simp
    have "int (leaf_levels p) = (\<Sum>j<num_row_groups file. int (length (entries (Column file j c))))"
      unfolding pc GetColumn_levels
      by (simp add: sum_list_distinct_conv_sum_set atLeast0LessThan)
    also from nv have "\<dots> = (\<Sum>j<num_row_groups file. num_values file j c)" by simp
    also from nonneg bound have "\<dots> = column_batch_size file c"
      by (simp add: column_batch_size_sum int64_id)
    also from c root have "\<dots> \<le> ?n"
      unfolding ReadSchemaField_batch_size_Max by (intro Max_ge) auto
    finally have "int (leaf_levels p) \<le> ?n" .
    with pc ty show ?thesis by (simp add: GetColumn_inv GetColumn_field_type)
  qed
  hence "\<forall>p\<in>set (tree_leaves t). leaf_inv p \<and> field_type p \<noteq> NA \<and> int (leaf_levels p) \<le> ?n"
    by blast
  from NextBatch_drains(1)[OF this nb] show "\<forall>p\<in>set (tree_leaves t'). leaf_levels p = 0" .
qed

theorem ReadSchemaField_batch_size_drains_witness:
  "ReadSchemaField_batch_size two_lists_file [0, 1] 0 (- 1) = 4
   \<and> ReadSchemaField_batch_size two_lists_file [0, 1] 0 (- 1)
       = Max (insert 0 (column_batch_size two_lists_file ` {c \<in> set [0, 1]. GetColumnRoot two_lists_file c = 0}))
   \<and> column_batch_size two_lists_file 0 = 3 + 1
   \<and> (\<exists>a t'. ReadSchemaField_run Debug two_lists_file 0 [0, 1] (- 1) = (Inr (Some a), Some t')
          \<and> list_all (\<lambda>p. leaf_levels p = 0) (tree_leaves t'))"
proof -
  note main = ReadSchemaField_batch_size_drains[of two_lists_file "[0, 1]" 0 0 Debug]
  from two_lists_file_read two_lists_file_tree obtain a t' where
    run: "ReadSchemaField_run Debug two_lists_file 0 [0, 1] (- 1) = (Inr (Some a), Some t')"
    by (cases "ReadSchemaField_run Debug two_lists_file 0 [0, 1] (- 1)") auto
  have s: "(\<Sum>j<num_row_groups two_lists_file. num_values two_lists_file j c) = 4" for c
    by (simp add: two_lists_file_def numeral_2_eq_2)
  have cols: "\<forall>c\<in>set (node_columns (root_fields two_lists_file ! 0)) \<inter> set [0, 1].
          GetColumnRoot two_lists_file c = 0 \<and> column_field_type two_lists_file c \<noteq> NA \<and>
          (\<forall>j<num_row_groups two_lists_file.
             num_values two_lists_file j c = int (length (entries (Column two_lists_file j c)))) \<and>
          (\<Sum>j<num_row_groups two_lists_file. num_values two_lists_file j c) < 2 ^ 63"
    unfolding s
    by (simp add: two_lists_file_def required_list_node_def three_element_chunk_def
        one_element_chunk_def)
  have small: "ReadSchemaField_batch_size two_lists_file [0, 1] 0 (- 1) < 2 ^ 31"
    by (simp add: two_lists_file_batch_size)
  from main[THEN conjunct2, THEN conjunct2, THEN conjunct2, of a t'] cols small run
  have "\<forall>p\<in>set (tree_leaves t'). leaf_levels p = 0" by blast
  hence d: "list_all (\<lambda>p. leaf_levels p = 0) (tree_leaves t')" by (simp add: list_all_iff)
  from main[THEN conjunct2, THEN conjunct2, THEN conjunct1] s[of 0]
  have c: "column_batch_size two_lists_file 0 = 3 + 1" by simp
  from run d c main[THEN conjunct1] two_lists_file_batch_size show ?thesis by blast
qed

text \<open>
  The claim as stated fails for the batch size where the longest column differs between
  the row groups: the two columns of the example hold 3 + 1 and 1 + 3 values, so the batch
  size is 4, and the sum over the row groups of the largest count is 3 + 3.
\<close>

theorem ReadSchemaField_batch_size_drains_counterexample:
  "ReadSchemaField_batch_size two_lists_file [0, 1] 0 (- 1) = 4
   \<and> num_row_groups two_lists_file = 2
   \<and> GetColumnRoot two_lists_file 0 = 0 \<and> GetColumnRoot two_lists_file 1 = 0
   \<and> max (num_values two_lists_file 0 0) (num_values two_lists_file 0 1)
       + max (num_values two_lists_file 1 0) (num_values two_lists_file 1 1) = 6"
  by (simp add: two_lists_file_batch_size) (simp add: two_lists_file_def)


section \<open>A leaf of the null type\<close>

text \<open>
  C10.  A leaf whose Arrow type is the null type and whose column reader is attached
  returns a null array of exactly the requested length and stays as it was: nothing is
  read from the column reader, however few entries it has left.
\<close>

theorem NextBatch_null_type:
  assumes "column_reader p = Some reader" and "field_type p = NA"
  shows "NextBatch b n (ImplPrimitive p) = (Inr (Some (NullArray n)), ImplPrimitive p)
       \<and> array_length (NullArray n) = n"
  using assms by (simp add: PrimitiveImpl_NextBatch_def)

theorem NextBatch_null_type_witness:
  "NextBatch Release 5 (ImplPrimitive (example_leaf NA))
     = (Inr (Some (NullArray 5)), ImplPrimitive (example_leaf NA))
   \<and> column_reader (example_leaf NA) = Some example_chunk
   \<and> length (entries example_chunk) = 2"
proof -
  have c: "column_reader (example_leaf NA) = Some example_chunk"
    and f: "field_type (example_leaf NA) = NA"
    by (simp_all add: example_leaf_simps)
  from NextBatch_null_type[OF c f, of Release 5] c show ?thesis
    by (simp add: example_chunk_def)
qed


section \<open>When \<^verbatim>\<open>NextBatch\<close> returns no array\<close>

lemma empty_chunk_leaf_simps:
  "empty_chunk_leaf =
     \<lparr>chunks = [empty_chunk], input = AllRowGroupsIterator 1, descr = example_descr,
      column_reader = Some empty_chunk, field_type = INT32,
      def_levels_buffer = [], rep_levels_buffer = []\<rparr>"
  by (simp add: empty_chunk_leaf_def PrimitiveImpl_new_def NextRowGroup_def)

text \<open>
  C5, as amended.  A leaf returns no array exactly when no column chunk is attached to
  it.  For a leaf as the constructor and \<^verbatim>\<open>NextBatch\<close> leave it, no chunk is attached only
  when no chunk has a level entry left to read; the converse fails, since a leaf that is
  attached to a chunk without entries returns an array, of length 0.  After a batch that
  asks for more than the leaf has left, no chunk is attached and the next call returns no
  array.  A list returns no array exactly when its child returns none.  A struct returns
  no array exactly when one of its children returns none and the children before it
  returned arrays.
\<close>

theorem NextBatch_none_iff_no_chunk:
  "(fst (NextBatch b n (ImplPrimitive p)) = Inr None \<longleftrightarrow> column_reader p = None)
   \<and> (leaf_inv p \<and> column_reader p = None \<longrightarrow> leaf_levels p = 0)
   \<and> leaf_inv (PrimitiveImpl_new chunks0 it d ty)
   \<and> (leaf_inv p \<longrightarrow> leaf_inv (primitive (snd (NextBatch b n (ImplPrimitive p)))))
   \<and> (leaf_inv p \<and> field_type p \<noteq> NA \<and> int (leaf_levels p) < n
        \<and> fst (NextBatch b n (ImplPrimitive p)) = Inr r
       \<longrightarrow> column_reader (primitive (snd (NextBatch b n (ImplPrimitive p)))) = None
           \<and> fst (NextBatch b n' (snd (NextBatch b n (ImplPrimitive p)))) = Inr None)
   \<and> (fst (NextBatch b n (ImplList c ld lr ms dbuf rbuf)) = Inr None
          \<longleftrightarrow> fst (NextBatch b n c) = Inr None)
   \<and> (fst (NextBatch b n (ImplStruct cs sd sr tp)) = Inr None
          \<longleftrightarrow> (\<exists>k<length cs. fst (NextBatch b n (cs ! k)) = Inr None \<and>
                 (\<forall>j<k. \<exists>a. fst (NextBatch b n (cs ! j)) = Inr (Some a))))"
proof -
  have leaf: "fst (NextBatch b n (ImplPrimitive p)) = Inr None \<longleftrightarrow> column_reader p = None"
    for n p
    using PrimitiveImpl_NextBatch_none[of n p] by (simp add: case_prod_unfold)
  have lv: "leaf_inv p \<and> column_reader p = None \<longrightarrow> leaf_levels p = 0"
    using leaf_inv_levels[of p] by blast
  have inv: "leaf_inv (primitive (snd (NextBatch b n (ImplPrimitive p))))" if "leaf_inv p"
    using PrimitiveImpl_NextBatch_inv[OF that, of n] by (simp add: case_prod_unfold)
  have det: "column_reader (primitive (snd (NextBatch b n (ImplPrimitive p)))) = None
           \<and> fst (NextBatch b n' (snd (NextBatch b n (ImplPrimitive p)))) = Inr None"
    if h: "leaf_inv p \<and> field_type p \<noteq> NA \<and> int (leaf_levels p) < n
        \<and> fst (NextBatch b n (ImplPrimitive p)) = Inr r"
  proof -
    obtain r' p' where e: "PrimitiveImpl_NextBatch n p = (r', p')"
      by (cases "PrimitiveImpl_NextBatch n p")
    with h have r': "r' = Inr r" by simp
    from h PrimitiveImpl_NextBatch_detaches[OF _ _ _ e[unfolded r']]
    have c: "column_reader p' = None" by blast
    from e have s: "snd (NextBatch b n (ImplPrimitive p)) = ImplPrimitive p'" by simp
    from c leaf[of n' p'] show ?thesis unfolding s by simp
  qed
  have st: "fst (NextBatch b n (ImplStruct cs sd sr tp)) = Inr None
          \<longleftrightarrow> (\<exists>k<length cs. fst (NextBatch b n (cs ! k)) = Inr None \<and>
                 (\<forall>j<k. \<exists>a. fst (NextBatch b n (cs ! j)) = Inr (Some a)))"
    using StructImpl_NextBatch_none[of b n cs sd sr tp] children_none[of b n cs] by simp
  show ?thesis
    by (intro conjI impI leaf lv PrimitiveImpl_new_inv inv ListImpl_NextBatch_none st)
       (use det in blast)+
qed


theorem NextBatch_none_iff_no_chunk_witness:
  "fst (NextBatch Release 3 (ImplPrimitive exhausted_leaf)) = Inr None
   \<and> leaf_levels exhausted_leaf = 0
   \<and> fst (NextBatch Release 3 (ImplPrimitive (example_leaf INT32))) \<noteq> Inr None
   \<and> fst (NextBatch Release 3 (snd (NextBatch Release 3 (ImplPrimitive (example_leaf INT32)))))
       = Inr None
   \<and> fst (NextBatch Release 3 (ImplList (ImplPrimitive exhausted_leaf) 1 0 0 None None))
       = Inr None
   \<and> fst (NextBatch Release 3
            (ImplStruct [ImplPrimitive (example_leaf INT32), ImplPrimitive exhausted_leaf] 0 0 0))
       = Inr None"
proof -
  note main = NextBatch_none_iff_no_chunk
  note leaf_part = main[THEN conjunct1]
  note levels_part = main[THEN conjunct2, THEN conjunct1]
  note next_part = main[THEN conjunct2, THEN conjunct2, THEN conjunct2, THEN conjunct2,
      THEN conjunct1]
  note list_part = main[THEN conjunct2, THEN conjunct2, THEN conjunct2, THEN conjunct2,
      THEN conjunct2, THEN conjunct1]
  note struct_part = main[THEN conjunct2, THEN conjunct2, THEN conjunct2, THEN conjunct2,
      THEN conjunct2, THEN conjunct2]
  have n: "column_reader exhausted_leaf = None" by (simp add: exhausted_leaf_simps)
  have i: "leaf_inv exhausted_leaf" unfolding exhausted_leaf_def by (rule PrimitiveImpl_new_inv)
  have a: "fst (NextBatch Release 3 (ImplPrimitive exhausted_leaf)) = Inr None"
    using leaf_part[of Release 3 exhausted_leaf] n by simp
  have e: "leaf_levels exhausted_leaf = 0"
    using levels_part[of exhausted_leaf] n i by simp
  have l: "fst (NextBatch Release 3 (ImplList (ImplPrimitive exhausted_leaf) 1 0 0 None None))
             = Inr None"
    using list_part[of Release 3 "ImplPrimitive exhausted_leaf" 1 0 0 None None] a by simp
  have f: "fst (NextBatch Release 3 (ImplPrimitive (example_leaf INT32)))
             = Inr (Some (PrimitiveArray INT32 2 [Some (AInt32 7), Some (AInt32 8)] None 0))"
    using example_leaf_INT32_NextBatch by (simp add: case_prod_unfold)
  have "\<exists>k<length [ImplPrimitive (example_leaf INT32), ImplPrimitive exhausted_leaf].
          fst (NextBatch Release 3
                 ([ImplPrimitive (example_leaf INT32), ImplPrimitive exhausted_leaf] ! k)) = Inr None
          \<and> (\<forall>j<k. \<exists>a. fst (NextBatch Release 3
                 ([ImplPrimitive (example_leaf INT32), ImplPrimitive exhausted_leaf] ! j))
                   = Inr (Some a))"
    using a f by (intro exI[of _ 1]) simp
  then have s: "fst (NextBatch Release 3
            (ImplStruct [ImplPrimitive (example_leaf INT32), ImplPrimitive exhausted_leaf] 0 0 0))
       = Inr None"
    using struct_part[of Release 3
        "[ImplPrimitive (example_leaf INT32), ImplPrimitive exhausted_leaf]" 0 0 0]
    by simp
  have "column_reader (example_leaf INT32) \<noteq> None" by (simp add: example_leaf_simps)
  then have m: "fst (NextBatch Release 3 (ImplPrimitive (example_leaf INT32))) \<noteq> Inr None"
    using leaf_part[of Release 3 "example_leaf INT32"] by simp
  have i2: "leaf_inv (example_leaf INT32)" unfolding example_leaf_def by (rule PrimitiveImpl_new_inv)
  have t2: "field_type (example_leaf INT32) \<noteq> NA" by (simp add: example_leaf_simps)
  have l2: "int (leaf_levels (example_leaf INT32)) < 3"
    by (simp add: example_leaf_simps leaf_levels_def example_chunk_def)
  from next_part[of "example_leaf INT32" 3 Release _ 3] i2 t2 l2 f
  have x: "fst (NextBatch Release 3 (snd (NextBatch Release 3 (ImplPrimitive (example_leaf INT32)))))
       = Inr None" by blast
  from a e m x l s show ?thesis by (intro conjI)
qed

text \<open>
  The claim as stated fails for a leaf over a row group that holds no value of the
  column: all its chunks are exhausted, and the first call returns an array of length 0.
\<close>

theorem NextBatch_none_iff_no_chunk_counterexample:
  "fst (NextBatch Release 3 (ImplPrimitive empty_chunk_leaf))
     = Inr (Some (PrimitiveArray INT32 0 [] None 0))
   \<and> chunks empty_chunk_leaf = [empty_chunk]
   \<and> entries empty_chunk = []
   \<and> leaf_levels empty_chunk_leaf = 0"
  by (simp add: empty_chunk_leaf_simps PrimitiveImpl_NextBatch_def TypedReadBatch_def
      read_loop.simps read_step_def ReadNonNullableBatch_def ReadBatch_def empty_chunk_def
      example_descr_def empty_acc_def after_read_def HasNext_def NextRowGroup_def
      finish_levels_def leaf_levels_def)


section \<open>Timestamps stored as \<^verbatim>\<open>Int96\<close>\<close>

lemma convert_values_timestamp:
  "convert_values (TIMESTAMP NANO) vs = Some out \<Longrightarrow>
     \<exists>tss. vs = map PInt96 tss
          \<and> out = map (\<lambda>ts. AInt64 (impala_timestamp_to_nanoseconds ts)) tss"
proof (induction vs arbitrary: out)
  case Nil
  then show ?case by simp
next
  case (Cons v vs)
  from Cons.prems obtain a out' where cv: "convert_value (TIMESTAMP NANO) v = Some a"
    and o: "convert_values (TIMESTAMP NANO) vs = Some out'"
    and out: "out = a # out'" by (auto split: option.splits)
  from cv obtain ts where v: "v = PInt96 ts"
    and a: "a = AInt64 (impala_timestamp_to_nanoseconds ts)"
    by (auto simp: convert_value_def as_int96_def split: pvalue.splits)
  from Cons.IH[OF o] obtain tss where "vs = map PInt96 tss"
    and "out' = map (\<lambda>ts. AInt64 (impala_timestamp_to_nanoseconds ts)) tss"
    by blast
  with out v a show ?case by (intro exI[of _ "ts # tss"]) simp
qed

lemma ReadNonNullableBatch_timestamp:
  assumes "ReadNonNullableBatch (TIMESTAMP NANO) d n acc reader = Inr (v', acc', reader')"
  shows "\<exists>tss. map (\<lambda>e. snd (snd e))
                 (filter (\<lambda>e. fst e = max_definition_level d)
                    (take (min (nat n) (length (entries reader))) (entries reader)))
               = map PInt96 tss
             \<and> acc_data acc'
                 = acc_data acc @ map (\<lambda>t. Some (AInt64 (impala_timestamp_to_nanoseconds t))) tss"
proof -
  from assms obtain out where
    c: "convert_values (TIMESTAMP NANO) (map (\<lambda>e. snd (snd e))
          (filter (\<lambda>e. fst e = max_definition_level d)
             (take (min (nat n) (length (entries reader))) (entries reader)))) = Some out"
    and a: "acc_data acc' = acc_data acc @ map Some out"
    by (auto simp: ReadNonNullableBatch_def ReadBatch_def Let_def split: option.splits)
  from convert_values_timestamp[OF c] a show ?thesis by (auto simp: comp_def)
qed

lemma TypedReadBatch_timestamp:
  assumes inv: "leaf_inv p" and le: "int (leaf_levels p) \<le> n"
    and r: "TypedReadBatch (TIMESTAMP NANO) Int96Type n p = (Inr (Some a), p')"
  shows "\<exists>tss. leaf_slots (descr p) (leaf_entries p) = map (map_option PInt96) tss
             \<and> a = PrimitiveArray (TIMESTAMP NANO) (int (length tss))
                     (map (map_option (\<lambda>t. AInt64 (impala_timestamp_to_nanoseconds t))) tss)
                     (if 0 < max_definition_level (descr p)
                      then Some (map (\<lambda>s. s \<noteq> None) tss) else None)
                     (if 0 < max_definition_level (descr p)
                      then int (length (filter (\<lambda>s. s = None) tss)) else 0)"
proof -
  from r obtain acc' p1 where
    l: "read_loop (Typed (TIMESTAMP NANO) Int96Type) n (empty_acc n) p = Inr (acc', p1)"
    and a: "a = (if 0 < max_definition_level (descr p)
                 then PrimitiveArray (TIMESTAMP NANO) (int (length (acc_data acc'))) (acc_data acc')
                        (Some (map (\<lambda>s. s \<noteq> None) (acc_data acc'))) (acc_null_count acc')
                 else PrimitiveArray (TIMESTAMP NANO) (int (length (acc_data acc')))
                        (acc_data acc') None 0)"
    by (auto simp: TypedReadBatch_def split: sum.splits)
  from read_loop_typed_data[OF inv le l] obtain out where
    c: "convert_slots (TIMESTAMP NANO) (leaf_slots (descr p) (leaf_entries p)) = Some out"
    and d: "acc_data acc' = out"
    and nc: "acc_null_count acc' = int (length (filter (\<lambda>s. s = None) out))"
    by (auto simp: empty_acc_def)
  from convert_slots_timestamp[OF c] obtain tss where
    s: "leaf_slots (descr p) (leaf_entries p) = map (map_option PInt96) tss"
    and o: "out = map (map_option (\<lambda>ts. AInt64 (impala_timestamp_to_nanoseconds ts))) tss"
    by blast
  have f: "length (filter (\<lambda>s. s = None) out) = length (filter (\<lambda>s. s = None) tss)"
    unfolding o by (induction tss) auto
  have v: "map (\<lambda>s. s \<noteq> None) out = map (\<lambda>s. s \<noteq> None) tss"
    unfolding o by simp
  from a d nc f v o s show ?thesis by (intro exI[of _ tss]) simp
qed

lemma timestamp_leaf_simps:
  "timestamp_leaf =
     \<lparr>chunks = [timestamp_chunk], input = AllRowGroupsIterator 1, descr = example_descr,
      column_reader = Some timestamp_chunk, field_type = TIMESTAMP NANO,
      def_levels_buffer = [], rep_levels_buffer = []\<rparr>"
  by (simp add: timestamp_leaf_def PrimitiveImpl_new_def NextRowGroup_def)

lemma timestamp_leaf_NextBatch:
  "fst (NextBatch Release 1 (ImplPrimitive timestamp_leaf))
     = Inr (Some (PrimitiveArray (TIMESTAMP NANO) 1 [Some (AInt64 86400000000001)] None 0))"
  by (simp add: timestamp_leaf_simps PrimitiveImpl_NextBatch_def TypedReadBatch_def
      read_loop.simps read_step_def ReadNonNullableBatch_def ReadBatch_def timestamp_chunk_def
      example_descr_def convert_value_def as_int96_def empty_acc_def after_read_def HasNext_def
      NextRowGroup_def finish_levels_def impala_timestamp_to_nanoseconds_def
      kJulianToUnixEpochDays_def kNanosecondsInADay_def)

text \<open>
  C6.  The days since the Julian epoch are the high 32 bits of the \<^verbatim>\<open>Int96\<close> and the
  nanoseconds of the day its low 64 bits.  \<^verbatim>\<open>impala_timestamp_to_nanoseconds\<close> returns
  \<open>(days - 2440588) * 86400000000000 + nanos\<close> as an \<^verbatim>\<open>int64_t\<close>: the value itself
  whenever it fits in 64 bits, and its 64-bit two's complement wrap-around in general.
  \<^verbatim>\<open>ReadNonNullableBatch\<close> for \<open>(TimestampType, Int96Type)\<close> appends this conversion of every
  value it reads to the data of the batch.  \<^verbatim>\<open>NextBatch\<close> on a leaf whose type is the
  timestamp in nanoseconds, asked for at least as many values as the leaf has left,
  returns the array whose slots are those of the column's level entries, each value
  converted in this way, with the validity bitmap and the null count of these slots if
  the column has definition levels.  The timestamp with 2440589 days and 1 nanosecond
  gives 86400000000001.
\<close>

theorem NextBatch_timestamp_int96:
  fixes ts :: Int96
  defines "days \<equiv> uint (ucast (drop_bit 64 (int96_bits ts)) :: 32 word)"
      and "nanos \<equiv> sint (ucast (int96_bits ts) :: 64 word)"
  shows "impala_timestamp_to_nanoseconds ts
           = word_of_int ((days - 2440588) * 86400000000000 + nanos)
       \<and> (- (2 ^ 63) \<le> (days - 2440588) * 86400000000000 + nanos
            \<and> (days - 2440588) * 86400000000000 + nanos < 2 ^ 63
          \<longrightarrow> sint (impala_timestamp_to_nanoseconds ts)
                = (days - 2440588) * 86400000000000 + nanos)
       \<and> convert_values (TIMESTAMP NANO) (map PInt96 tss)
           = Some (map (\<lambda>t. AInt64 (impala_timestamp_to_nanoseconds t)) tss)
       \<and> (ReadNonNullableBatch (TIMESTAMP NANO) d n acc reader = Inr (v', acc', reader')
          \<longrightarrow> (\<exists>read.
                 map (\<lambda>e. snd (snd e))
                   (filter (\<lambda>e. fst e = max_definition_level d)
                      (take (min (nat n) (length (entries reader))) (entries reader)))
                   = map PInt96 read
               \<and> acc_data acc'
                   = acc_data acc
                       @ map (\<lambda>t. Some (AInt64 (impala_timestamp_to_nanoseconds t))) read))
       \<and> (leaf_inv p \<and> field_type p = TIMESTAMP NANO \<and> int (leaf_levels p) \<le> n
            \<and> NextBatch b n (ImplPrimitive p) = (Inr (Some a), t')
          \<longrightarrow> (\<exists>slots.
                 leaf_slots (descr p) (leaf_entries p) = map (map_option PInt96) slots
               \<and> a = PrimitiveArray (TIMESTAMP NANO) (int (length slots))
                       (map (map_option (\<lambda>t. AInt64 (impala_timestamp_to_nanoseconds t))) slots)
                       (if 0 < max_definition_level (descr p)
                        then Some (map (\<lambda>s. s \<noteq> None) slots) else None)
                       (if 0 < max_definition_level (descr p)
                        then int (length (filter (\<lambda>s. s = None) slots)) else 0)))
       \<and> impala_timestamp_to_nanoseconds \<lparr>value0 = 1, value1 = 0, value2 = 2440589\<rparr>
           = 86400000000001"
proof -
  have w: "impala_timestamp_to_nanoseconds ts
             = word_of_int ((days - 2440588) * 86400000000000 + nanos)"
    unfolding days_def nanos_def int96_low_64 int96_high_32 by (rule impala_timestamp_word)
  have r: "sint (impala_timestamp_to_nanoseconds ts) = (days - 2440588) * 86400000000000 + nanos"
    if "- (2 ^ 63) \<le> (days - 2440588) * 86400000000000 + nanos"
      and "(days - 2440588) * 86400000000000 + nanos < 2 ^ 63"
    using that unfolding w by (subst int_word_sint) simp
  have e: "impala_timestamp_to_nanoseconds \<lparr>value0 = 1, value1 = 0, value2 = 2440589\<rparr>
             = 86400000000001"
    by (simp add: impala_timestamp_to_nanoseconds_def kJulianToUnixEpochDays_def
        kNanosecondsInADay_def)
  have step: "ReadNonNullableBatch (TIMESTAMP NANO) d n acc reader = Inr (v', acc', reader')
          \<longrightarrow> (\<exists>read.
                 map (\<lambda>e. snd (snd e))
                   (filter (\<lambda>e. fst e = max_definition_level d)
                      (take (min (nat n) (length (entries reader))) (entries reader)))
                   = map PInt96 read
               \<and> acc_data acc'
                   = acc_data acc
                       @ map (\<lambda>t. Some (AInt64 (impala_timestamp_to_nanoseconds t))) read)"
    using ReadNonNullableBatch_timestamp by blast
  have batch: "leaf_inv p \<and> field_type p = TIMESTAMP NANO \<and> int (leaf_levels p) \<le> n
            \<and> NextBatch b n (ImplPrimitive p) = (Inr (Some a), t')
          \<longrightarrow> (\<exists>slots.
                 leaf_slots (descr p) (leaf_entries p) = map (map_option PInt96) slots
               \<and> a = PrimitiveArray (TIMESTAMP NANO) (int (length slots))
                       (map (map_option (\<lambda>t. AInt64 (impala_timestamp_to_nanoseconds t))) slots)
                       (if 0 < max_definition_level (descr p)
                        then Some (map (\<lambda>s. s \<noteq> None) slots) else None)
                       (if 0 < max_definition_level (descr p)
                        then int (length (filter (\<lambda>s. s = None) slots)) else 0))"
  proof
    assume h: "leaf_inv p \<and> field_type p = TIMESTAMP NANO \<and> int (leaf_levels p) \<le> n
            \<and> NextBatch b n (ImplPrimitive p) = (Inr (Some a), t')"
    then obtain p' where nb: "PrimitiveImpl_NextBatch n p = (Inr (Some a), p')"
      by (auto split: prod.splits)
    with h have "TypedReadBatch (TIMESTAMP NANO) Int96Type n p = (Inr (Some a), p')"
      by (cases "column_reader p") (simp_all add: PrimitiveImpl_NextBatch_def)
    with h TypedReadBatch_timestamp show "\<exists>slots.
                 leaf_slots (descr p) (leaf_entries p) = map (map_option PInt96) slots
               \<and> a = PrimitiveArray (TIMESTAMP NANO) (int (length slots))
                       (map (map_option (\<lambda>t. AInt64 (impala_timestamp_to_nanoseconds t))) slots)
                       (if 0 < max_definition_level (descr p)
                        then Some (map (\<lambda>s. s \<noteq> None) slots) else None)
                       (if 0 < max_definition_level (descr p)
                        then int (length (filter (\<lambda>s. s = None) slots)) else 0)"
      by blast
  qed
  show ?thesis
    by (intro conjI impI w e convert_values_int96 step batch) (use r in blast)
qed

theorem NextBatch_timestamp_int96_witness:
  "sint (impala_timestamp_to_nanoseconds \<lparr>value0 = 1, value1 = 0, value2 = 2440589\<rparr>)
     = 86400000000001
   \<and> fst (NextBatch Release 1 (ImplPrimitive timestamp_leaf))
       = Inr (Some (PrimitiveArray (TIMESTAMP NANO) 1 [Some (AInt64 86400000000001)] None 0))
   \<and> leaf_entries timestamp_leaf = [(0, 0, PInt96 \<lparr>value0 = 1, value1 = 0, value2 = 2440589\<rparr>)]
   \<and> (\<exists>slots. leaf_slots (descr timestamp_leaf) (leaf_entries timestamp_leaf)
                  = map (map_option PInt96) slots
              \<and> PrimitiveArray (TIMESTAMP NANO) 1 [Some (AInt64 86400000000001)] None 0
                  = PrimitiveArray (TIMESTAMP NANO) (int (length slots))
                      (map (map_option (\<lambda>t. AInt64 (impala_timestamp_to_nanoseconds t))) slots)
                      None 0)"
proof -
  note main = NextBatch_timestamp_int96
    [where ts = "\<lparr>value0 = 1, value1 = 0, value2 = 2440589\<rparr>" and p = timestamp_leaf
       and n = 1 and b = Release]
  have a: "(ucast (drop_bit 64 (int96_bits \<lparr>value0 = 1, value1 = 0, value2 = 2440589\<rparr>)) :: 32 word)
             = 2440589"
    by (simp add: int96_high_32)
  have b: "(ucast (int96_bits \<lparr>value0 = 1, value1 = 0, value2 = 2440589\<rparr>) :: 64 word) = 1"
    by (simp add: int96_low_64)
  have x: "sint (impala_timestamp_to_nanoseconds \<lparr>value0 = 1, value1 = 0, value2 = 2440589\<rparr>)
          = 86400000000001"
    using main[THEN conjunct2, THEN conjunct1] unfolding a b by simp
  have i: "leaf_inv timestamp_leaf" unfolding timestamp_leaf_def by (rule PrimitiveImpl_new_inv)
  have t: "field_type timestamp_leaf = TIMESTAMP NANO" by (simp add: timestamp_leaf_simps)
  have es: "leaf_entries timestamp_leaf
              = [(0, 0, PInt96 \<lparr>value0 = 1, value1 = 0, value2 = 2440589\<rparr>)]"
    by (simp add: timestamp_leaf_simps leaf_entries_def timestamp_chunk_def)
  have l: "int (leaf_levels timestamp_leaf) \<le> 1"
    by (simp add: leaf_levels_entries es)
  have md: "\<not> 0 < max_definition_level (descr timestamp_leaf)"
    by (simp add: timestamp_leaf_simps example_descr_def)
  note f = timestamp_leaf_NextBatch
  hence h: "NextBatch Release 1 (ImplPrimitive timestamp_leaf)
              = (Inr (Some (PrimitiveArray (TIMESTAMP NANO) 1 [Some (AInt64 86400000000001)] None 0)),
                 snd (NextBatch Release 1 (ImplPrimitive timestamp_leaf)))"
    by (simp add: prod_eq_iff)
  from main[THEN conjunct2, THEN conjunct2, THEN conjunct2, THEN conjunct2, THEN conjunct1,
      rule_format, OF conjI[OF i conjI[OF t conjI[OF l h]]]]
  have "\<exists>slots. leaf_slots (descr timestamp_leaf) (leaf_entries timestamp_leaf)
                  = map (map_option PInt96) slots
              \<and> PrimitiveArray (TIMESTAMP NANO) 1 [Some (AInt64 86400000000001)] None 0
                  = PrimitiveArray (TIMESTAMP NANO) (int (length slots))
                      (map (map_option (\<lambda>t. AInt64 (impala_timestamp_to_nanoseconds t))) slots)
                      None 0"
    using md by simp
  with x f es show ?thesis by (intro conjI)
qed


end
